theory Spec2Isabelle
  imports Main "HOL-Library.AList" "HOL-Library.Multiset"
begin

section \<open>JavaScript values, strings and errors\<close>

text \<open>
  A column value as the handlers of \<^verbatim>\<open>routes/shortUrl.js\<close> read it from a result row:
  a string, \<^verbatim>\<open>null\<close> (an SQL NULL) or \<^verbatim>\<open>undefined\<close> (a property the row does not have).
\<close>

datatype js_value = Undefined | Null | Str string

text \<open>
  The outcomes of a handler other than success: the 400 responses of \<^verbatim>\<open>POST /shorten\<close>
  (\<open>ValidationError\<close>, \<open>AliasConflict\<close>), the 404 responses (\<open>NotFound\<close>), the 500 responses
  (\<open>StorageError\<close>) and an exception thrown inside a query callback (\<open>TypeError\<close>).
\<close>

datatype error = ValidationError | AliasConflict | NotFound | StorageError | TypeError

text \<open>
  \<^verbatim>\<open>toLowerCase\<close> on one character: the letters \<^verbatim>\<open>A\<close> to \<^verbatim>\<open>Z\<close> become \<^verbatim>\<open>a\<close> to \<^verbatim>\<open>z\<close>. The
  words the handlers look for are made of these letters only, and no other character
  lower-cases to a text that completes one of them.
\<close>

definition lower_chr :: "char \<Rightarrow> char" where
  "lower_chr c =
     (let n = (of_char c :: nat) in if 65 \<le> n \<and> n \<le> 90 then char_of (n + 32) else c)"

text \<open>\<^verbatim>\<open>v.toLowerCase()\<close>: a method call on \<^verbatim>\<open>null\<close> or \<^verbatim>\<open>undefined\<close> throws.\<close>

fun toLowerCase :: "js_value \<Rightarrow> error + string" where
  "toLowerCase (Str s) = Inr (map lower_chr s)"
| "toLowerCase Null = Inl TypeError"
| "toLowerCase Undefined = Inl TypeError"

fun startsWith :: "string \<Rightarrow> string \<Rightarrow> bool" where
  "startsWith s [] = True"
| "startsWith [] (p # ps) = False"
| "startsWith (c # cs) (p # ps) = (c = p \<and> startsWith cs ps)"

text \<open>\<^verbatim>\<open>s.includes(p)\<close>: \<open>p\<close> occurs in \<open>s\<close> at some position.\<close>

fun str_includes :: "string \<Rightarrow> string \<Rightarrow> bool" where
  "str_includes [] p = (p = [])"
| "str_includes (c # cs) p = (startsWith (c # cs) p \<or> str_includes cs p)"

text \<open>\<^verbatim>\<open>a < b\<close> and \<^verbatim>\<open>a >= b\<close> on strings compare code units from the left.\<close>

fun str_lt :: "string \<Rightarrow> string \<Rightarrow> bool" where
  "str_lt [] [] = False"
| "str_lt [] (y # ys) = True"
| "str_lt (x # xs) [] = False"
| "str_lt (x # xs) (y # ys) =
     ((of_char x :: nat) < of_char y \<or> (x = y \<and> str_lt xs ys))"

definition str_ge :: "string \<Rightarrow> string \<Rightarrow> bool" where
  "str_ge a b = (\<not> str_lt a b)"

section \<open>Plain objects used as dictionaries, and Set\<close>

text \<open>
  An object literal \<^verbatim>\<open>{}\<close> filled by \<^verbatim>\<open>m[k] = v\<close>: its own properties in creation
  order. \<^verbatim>\<open>Object.keys\<close>, \<^verbatim>\<open>Object.values\<close> and \<^verbatim>\<open>Object.entries\<close> list the keys that are
  array indices first, in ascending numeric order, then the other keys in creation order.
\<close>

type_synonym 'v js_object = "(string \<times> 'v) list"

definition is_digit :: "char \<Rightarrow> bool" where
  "is_digit c = (48 \<le> (of_char c :: nat) \<and> (of_char c :: nat) \<le> 57)"

definition index_value :: "string \<Rightarrow> nat" where
  "index_value s = foldl (\<lambda>n c. 10 * n + (of_char c - 48)) 0 s"

definition is_array_index :: "string \<Rightarrow> bool" where
  "is_array_index s =
     (s \<noteq> [] \<and> list_all is_digit s \<and> (s = ''0'' \<or> \<not> startsWith s ''0'')
      \<and> index_value s < 4294967295)"

definition own_entries :: "'v js_object \<Rightarrow> (string \<times> 'v) list" where
  "own_entries m =
     sort_key (\<lambda>kv. index_value (fst kv)) (filter (\<lambda>kv. is_array_index (fst kv)) m)
     @ filter (\<lambda>kv. \<not> is_array_index (fst kv)) m"

text \<open>
  The properties every object literal inherits from \<^verbatim>\<open>Object.prototype\<close>: reading one of
  them on \<^verbatim>\<open>{}\<close> gives a function (or, for \<^verbatim>\<open>__proto__\<close>, the prototype itself), not
  \<^verbatim>\<open>undefined\<close>.
\<close>

definition object_prototype_keys :: "string list" where
  "object_prototype_keys =
     [''constructor'', ''__defineGetter__'', ''__defineSetter__'', ''hasOwnProperty'',
      ''__lookupGetter__'', ''__lookupSetter__'', ''isPrototypeOf'', ''propertyIsEnumerable'',
      ''toString'', ''valueOf'', ''__proto__'', ''toLocaleString'']"

text \<open>\<^verbatim>\<open>new Set()\<close> with \<^verbatim>\<open>add\<close> and \<^verbatim>\<open>size\<close>: the distinct members in insertion order.\<close>

definition set_add :: "js_value list \<Rightarrow> js_value \<Rightarrow> js_value list" where
  "set_add s v = (if v \<in> set s then s else s @ [v])"

definition new_Set :: "js_value list \<Rightarrow> js_value list" where
  "new_Set vs = foldl set_add [] vs"

section \<open>Calendar dates as the moment library formats them\<close>

datatype date = Date (year: nat) (month: nat) (day: nat)

definition is_leap :: "nat \<Rightarrow> bool" where
  "is_leap y = (y mod 4 = 0 \<and> (y mod 100 \<noteq> 0 \<or> y mod 400 = 0))"

definition days_in_month :: "nat \<Rightarrow> nat \<Rightarrow> nat" where
  "days_in_month y m =
     (if m = 2 then (if is_leap y then 29 else 28)
      else if m = 4 \<or> m = 6 \<or> m = 9 \<or> m = 11 then 30 else 31)"

fun prev_day :: "date \<Rightarrow> date" where
  "prev_day (Date y m d) =
     (if 1 < d then Date y m (d - 1)
      else if 1 < m then Date y (m - 1) (days_in_month y (m - 1))
      else Date (y - 1) 12 31)"

text \<open>\<^verbatim>\<open>moment().subtract(n, 'days')\<close> on the calendar date of the computation.\<close>

definition subtract_days :: "nat \<Rightarrow> date \<Rightarrow> date" where
  "subtract_days n d = (prev_day ^^ n) d"

fun dec :: "nat \<Rightarrow> string" where
  "dec n = (if n < 10 then [char_of (48 + n)] else dec (n div 10) @ [char_of (48 + n mod 10)])"

declare dec.simps [simp del]

definition zeroFill :: "nat \<Rightarrow> nat \<Rightarrow> string" where
  "zeroFill n w = replicate (w - length (dec n)) (CHR ''0'') @ dec n"

text \<open>\<^verbatim>\<open>.format('YYYY-MM-DD')\<close>.\<close>

definition format_date :: "date \<Rightarrow> string" where
  "format_date d = zeroFill (year d) 4 @ ''-'' @ zeroFill (month d) 2 @ ''-'' @ zeroFill (day d) 2"

section \<open>The click aggregator of \<^verbatim>\<open>GET /analytics/:alias\<close>\<close>

text \<open>
  A row of \<^verbatim>\<open>analyticsResults\<close>, as the callback reads it: \<^verbatim>\<open>record.alias\<close>,
  \<^verbatim>\<open>record.click_date\<close>, \<^verbatim>\<open>record.user_agent\<close>, \<^verbatim>\<open>record.total_clicks\<close>,
  \<^verbatim>\<open>record.unique_users\<close> and \<^verbatim>\<open>record.ip_address\<close>. The two analytics statements select
  no \<^verbatim>\<open>ip_address\<close> column, so on the rows they return that property reads as
  \<open>Undefined\<close>; the aggregation is defined for every row whatever the property holds.
  Counts are natural numbers (the sums of the code are exact below \<^verbatim>\<open>2^53\<close>).
\<close>

record event_tuple =
  t_alias :: string
  click_date :: date
  user_agent :: js_value
  total_clicks :: nat
  unique_users :: nat
  ip_address :: js_value

text \<open>
  An entry of \<^verbatim>\<open>osTypeMap\<close> or \<^verbatim>\<open>deviceTypeMap\<close> while the loop runs, and the entry of
  the response made from it (\<open>bucketName\<close> is the property \<^verbatim>\<open>osName\<close> or \<^verbatim>\<open>deviceName\<close>).
\<close>

record bucket_data =
  data_name :: string
  data_uniqueClicks :: nat
  data_uniqueUsers :: "js_value list"

record bucket =
  bucketName :: string
  uniqueClicks :: nat
  bucketUsers :: nat

record date_count =
  date_key :: string
  clickCount :: nat

record summary =
  totalClicks :: nat
  uniqueUsers :: nat
  clicksByDate :: "date_count list"

record alias_report = summary +
  osType :: "bucket list"
  deviceType :: "bucket list"

text \<open>\<^verbatim>\<open>analyticsResults.reduce((sum, record) => sum + record.total_clicks, 0)\<close>\<close>

definition sum_total_clicks :: "event_tuple list \<Rightarrow> nat" where
  "sum_total_clicks rs = foldl (\<lambda>sum r. sum + total_clicks r) 0 rs"

text \<open>\<^verbatim>\<open>new Set(analyticsResults.map(record => record.ip_address)).size\<close>\<close>

definition count_unique_users :: "event_tuple list \<Rightarrow> nat" where
  "count_unique_users rs = length (new_Set (map ip_address rs))"

text \<open>
  The body of the first \<^verbatim>\<open>forEach\<close>: \<^verbatim>\<open>(clicksByDate[clickDate] || 0)\<close> is the stored count, or
  0 when the key is new.
\<close>

definition clicksByDate_step :: "string \<Rightarrow> nat js_object \<Rightarrow> event_tuple \<Rightarrow> nat js_object" where
  "clicksByDate_step sevenDaysAgo m r =
     (let clickDate = format_date (click_date r) in
      if str_ge clickDate sevenDaysAgo
      then AList.update clickDate
             ((case map_of m clickDate of None \<Rightarrow> 0 | Some c \<Rightarrow> c) + total_clicks r) m
      else m)"

definition clicksByDateArray :: "date \<Rightarrow> event_tuple list \<Rightarrow> date_count list" where
  "clicksByDateArray today rs =
     (let sevenDaysAgo = format_date (subtract_days 7 today) in
      map (\<lambda>(d, count). \<lparr>date_key = d, clickCount = count\<rparr>)
        (own_entries (foldl (clicksByDate_step sevenDaysAgo) [] rs)))"

definition osName_of :: "string \<Rightarrow> string" where
  "osName_of userAgent =
     (if str_includes userAgent ''windows'' then ''Windows''
      else if str_includes userAgent ''mac'' then ''macOS''
      else if str_includes userAgent ''linux'' then ''Linux''
      else if str_includes userAgent ''android'' then ''Android''
      else if str_includes userAgent ''ios'' \<or> str_includes userAgent ''iphone'' then ''iOS''
      else ''Other'')"

definition deviceName_of :: "string \<Rightarrow> string" where
  "deviceName_of userAgent =
     (if str_includes userAgent ''mobile'' \<or> str_includes userAgent ''android''
         \<or> str_includes userAgent ''iphone''
      then ''mobile'' else ''desktop'')"

text \<open>
  The second and third \<^verbatim>\<open>forEach\<close> differ in the classification only. \<^verbatim>\<open>m[k] = m[k] || {...}\<close>
  keeps an entry that exists and creates an empty one otherwise; the loop stops at the
  first row whose \<^verbatim>\<open>user_agent.toLowerCase()\<close> throws.
\<close>

definition bucket_step ::
  "(string \<Rightarrow> string) \<Rightarrow> bucket_data js_object \<Rightarrow> event_tuple \<Rightarrow> error + bucket_data js_object"
where
  "bucket_step classify m r =
     (case toLowerCase (user_agent r) of
        Inl e \<Rightarrow> Inl e
      | Inr userAgent \<Rightarrow>
          (let k = classify userAgent;
               b = (case map_of m k of
                      Some b \<Rightarrow> b
                    | None \<Rightarrow> \<lparr>data_name = k, data_uniqueClicks = 0, data_uniqueUsers = []\<rparr>)
           in Inr (AList.update k
                 (b\<lparr>data_uniqueClicks := data_uniqueClicks b + total_clicks r,
                    data_uniqueUsers := set_add (data_uniqueUsers b) (ip_address r)\<rparr>) m)))"

fun bucket_forEach ::
  "(string \<Rightarrow> string) \<Rightarrow> event_tuple list \<Rightarrow> bucket_data js_object \<Rightarrow> error + bucket_data js_object"
where
  "bucket_forEach classify [] m = Inr m"
| "bucket_forEach classify (r # rs) m =
     (case bucket_step classify m r of
        Inl e \<Rightarrow> Inl e
      | Inr m' \<Rightarrow> bucket_forEach classify rs m')"

definition bucket_array :: "bucket_data js_object \<Rightarrow> bucket list" where
  "bucket_array m =
     map (\<lambda>(k, b). \<lparr>bucketName = data_name b, uniqueClicks = data_uniqueClicks b,
                    bucketUsers = length (data_uniqueUsers b)\<rparr>) (own_entries m)"

text \<open>The callback of the analytics query, from \<^verbatim>\<open>totalClicks\<close> to the response object.\<close>

definition aggregate :: "date \<Rightarrow> event_tuple list \<Rightarrow> error + alias_report" where
  "aggregate today analyticsResults =
     (let total = sum_total_clicks analyticsResults;
          users = count_unique_users analyticsResults;
          byDate = clicksByDateArray today analyticsResults
      in case bucket_forEach osName_of analyticsResults [] of
           Inl e \<Rightarrow> Inl e
         | Inr osTypeMap \<Rightarrow>
             (case bucket_forEach deviceName_of analyticsResults [] of
                Inl e \<Rightarrow> Inl e
              | Inr deviceTypeMap \<Rightarrow>
                  Inr \<lparr>totalClicks = total, uniqueUsers = users, clicksByDate = byDate,
                       osType = bucket_array osTypeMap,
                       deviceType = bucket_array deviceTypeMap\<rparr>))"

section \<open>The tables and the statements the handlers send\<close>

text \<open>
  The rows of \<^verbatim>\<open>sql/sqlurl.sql\<close>, with the columns the handlers write or read (\<^verbatim>\<open>id\<close>,
  \<^verbatim>\<open>created_at\<close> and \<^verbatim>\<open>timestamp\<close> are filled in by the database). A nullable column
  is an \<open>option\<close>. Both tables are kept in insertion order, and \<^verbatim>\<open>=\<close> on two column
  values is equality of the strings.
\<close>

record url_row =
  long_url :: string
  short_url :: string
  custom_alias :: "string option"
  topic :: "string option"

record analytics_row =
  a_alias :: string
  a_user_agent :: "string option"
  a_ip_address :: "string option"
  a_geolocation :: "string option"

record db =
  urls :: "url_row list"
  url_analytics :: "analytics_row list"

text \<open>
  A request value that may be missing (a body property, a header): \<^verbatim>\<open>!v\<close> holds of a
  missing value and of the empty string.
\<close>

definition truthy :: "string option \<Rightarrow> bool" where
  "truthy v = (case v of None \<Rightarrow> False | Some s \<Rightarrow> s \<noteq> [])"

text \<open>\<^verbatim>\<open>SELECT * FROM urls WHERE custom_alias = ?\<close>; a NULL parameter equals no value.\<close>

definition checkAliasQuery :: "db \<Rightarrow> string option \<Rightarrow> url_row list" where
  "checkAliasQuery d customAlias =
     (case customAlias of
        None \<Rightarrow> []
      | Some a \<Rightarrow> filter (\<lambda>r. custom_alias r = Some a) (urls d))"

text \<open>\<^verbatim>\<open>SELECT * FROM urls WHERE short_url = ? OR custom_alias = ? LIMIT 1\<close>\<close>

definition findUrlQuery :: "db \<Rightarrow> string \<Rightarrow> url_row list" where
  "findUrlQuery d a =
     take 1 (filter (\<lambda>r. short_url r = a \<or> custom_alias r = Some a) (urls d))"

text \<open>\<^verbatim>\<open>SELECT * FROM urls WHERE topic = ?\<close>\<close>

definition topicUrlsQuery :: "db \<Rightarrow> string \<Rightarrow> url_row list" where
  "topicUrlsQuery d t = filter (\<lambda>r. topic r = Some t) (urls d)"

text \<open>
  The \<^verbatim>\<open>UNIQUE\<close> constraints of \<^verbatim>\<open>urls\<close>: an insert is refused when the new
  \<^verbatim>\<open>short_url\<close> is taken, or the new \<^verbatim>\<open>custom_alias\<close> is not NULL and is taken.
\<close>

definition violates_unique :: "db \<Rightarrow> url_row \<Rightarrow> bool" where
  "violates_unique d row =
     (short_url row \<in> set (map short_url (urls d))
      \<or> (case custom_alias row of
            None \<Rightarrow> False
          | Some a \<Rightarrow> Some a \<in> set (map custom_alias (urls d))))"

section \<open>\<^verbatim>\<open>POST /shorten\<close>\<close>

text \<open>
  \<open>check_err\<close> and \<open>insert_err\<close> say whether the database reports an error for the
  first and the second statement for a reason of its own; \<open>generated\<close> is what
  \<^verbatim>\<open>shortid.generate()\<close> returns when it is called, \<open>origin\<close> the protocol and host of
  the request. The result is the response (the \<^verbatim>\<open>shortUrl\<close> of the 201 body, or the
  error) and the database afterwards.
\<close>

definition create ::
  "db \<Rightarrow> bool \<Rightarrow> bool \<Rightarrow> string \<Rightarrow> string \<Rightarrow> string option \<Rightarrow> string option \<Rightarrow> string option
     \<Rightarrow> (error + string) \<times> db"
where
  "create d check_err insert_err generated origin longUrl customAlias topic_name =
     (if \<not> truthy longUrl then (Inl ValidationError, d)
      else
        let shortUrl = (if truthy customAlias then the customAlias else generated) in
        if check_err then (Inl StorageError, d)
        else if checkAliasQuery d customAlias \<noteq> [] then (Inl AliasConflict, d)
        else
          let row = \<lparr>long_url = the longUrl, short_url = shortUrl,
                     custom_alias = (if truthy customAlias then customAlias else None),
                     topic = (if truthy topic_name then topic_name else None)\<rparr>
          in if insert_err \<or> violates_unique d row then (Inl StorageError, d)
             else (Inr (origin @ ''/'' @ shortUrl), d\<lparr>urls := urls d @ [row]\<rparr>))"

section \<open>\<^verbatim>\<open>GET /shorten/:alias\<close>\<close>

record geo =
  country :: string
  region :: string
  city :: string

text \<open>
  \<open>find_err\<close> and \<open>insert_err\<close> say whether the database reports an error for the
  lookup and for the analytics insert; \<open>lookup\<close> is \<^verbatim>\<open>geoip.lookup\<close>; \<open>userAgent\<close> is the
  request header, \<open>req_ip\<close> and \<open>remoteAddress\<close> the two sources of the address. The result
  is the response (the target of the redirect, or the error), the database afterwards and
  the lines written by \<^verbatim>\<open>console.error\<close>.
\<close>

definition redirect ::
  "db \<Rightarrow> bool \<Rightarrow> bool \<Rightarrow> (string \<Rightarrow> geo option) \<Rightarrow> string \<Rightarrow> string option \<Rightarrow> string option
     \<Rightarrow> string option \<Rightarrow> (error + string) \<times> db \<times> string list"
where
  "redirect d find_err insert_err lookup a userAgent req_ip remoteAddress =
     (if find_err then (Inl StorageError, d, [])
      else
        case findUrlQuery d a of
          [] \<Rightarrow> (Inl NotFound, d, [])
        | r # _ \<Rightarrow>
            (let longUrl = long_url r;
                 ipAddress = (if truthy req_ip then the req_ip
                              else if truthy remoteAddress then the remoteAddress
                              else ''Unknown'');
                 g = (case lookup ipAddress of
                        Some g \<Rightarrow> g
                      | None \<Rightarrow> \<lparr>country = ''Unknown'', region = ''Unknown'', city = ''Unknown''\<rparr>);
                 geolocation = city g @ '', '' @ region g @ '', '' @ country g;
                 event = \<lparr>a_alias = a, a_user_agent = userAgent, a_ip_address = Some ipAddress,
                          a_geolocation = Some geolocation\<rparr>
             in if insert_err
                then (Inr longUrl, d, [''Error logging analytics:''])
                else (Inr longUrl, d\<lparr>url_analytics := url_analytics d @ [event]\<rparr>, [])))"

section \<open>\<^verbatim>\<open>GET /analytics/:alias\<close>\<close>

text \<open>
  \<open>check_err\<close> says whether the database reports an error for the lookup;
  \<open>queryGroupedEvents\<close> is the answer of the database to the grouped statement for an
  alias: the rows, or \<open>None\<close> for an error; \<open>today\<close> is the date of the computation.
\<close>

definition getAliasReport ::
  "db \<Rightarrow> bool \<Rightarrow> (string \<Rightarrow> event_tuple list option) \<Rightarrow> date \<Rightarrow> string \<Rightarrow> error + alias_report"
where
  "getAliasReport d check_err queryGroupedEvents today a =
     (if check_err then Inl StorageError
      else if findUrlQuery d a = [] then Inl NotFound
      else
        case queryGroupedEvents a of
          None \<Rightarrow> Inl StorageError
        | Some analyticsResults \<Rightarrow> aggregate today analyticsResults)"

section \<open>\<^verbatim>\<open>GET /analytics/topic/:topic\<close>\<close>

record url_data =
  data_totalClicks :: nat
  data_users :: "js_value list"

record url_stats =
  shortUrl :: string
  url_totalClicks :: nat
  url_uniqueUsers :: nat

record topic_report = summary +
  report_urls :: "url_stats list"

text \<open>
  The variables the loop over \<^verbatim>\<open>analyticsResults\<close> updates: \<^verbatim>\<open>totalClicks\<close>,
  \<^verbatim>\<open>uniqueUsersSet\<close>, \<^verbatim>\<open>clicksByDate\<close> and \<^verbatim>\<open>urlsAnalytics\<close>.
\<close>

record topic_state =
  st_totalClicks :: nat
  st_uniqueUsersSet :: "js_value list"
  st_clicksByDate :: "nat js_object"
  st_urlsAnalytics :: "url_data js_object"

text \<open>
  The body of the loop. \<^verbatim>\<open>if (!clicksByDate[clickDate]) clicksByDate[clickDate] = 0\<close> followed
  by \<^verbatim>\<open>+=\<close> stores the old count, or 0 for a new key, plus the clicks of the row.
  \<^verbatim>\<open>urlsAnalytics[record.alias]\<close> on a key the object inherits is not \<^verbatim>\<open>undefined\<close>, so no
  entry is created; the inherited value has no \<^verbatim>\<open>uniqueUsers\<close>, and
  \<^verbatim>\<open>.uniqueUsers.add(...)\<close> throws.
\<close>

definition topic_step :: "topic_state \<Rightarrow> event_tuple \<Rightarrow> error + topic_state" where
  "topic_step st r =
     (let total = st_totalClicks st + total_clicks r;
          users = set_add (st_uniqueUsersSet st) (ip_address r);
          clickDate = format_date (click_date r);
          byDate = AList.update clickDate
                     ((case map_of (st_clicksByDate st) clickDate of None \<Rightarrow> 0 | Some c \<Rightarrow> c)
                      + total_clicks r) (st_clicksByDate st)
      in if map_of (st_urlsAnalytics st) (t_alias r) = None
            \<and> t_alias r \<in> set object_prototype_keys
         then Inl TypeError
         else
           let u = (case map_of (st_urlsAnalytics st) (t_alias r) of
                      Some u \<Rightarrow> u
                    | None \<Rightarrow> \<lparr>data_totalClicks = 0, data_users = []\<rparr>)
           in Inr \<lparr>st_totalClicks = total, st_uniqueUsersSet = users, st_clicksByDate = byDate,
                   st_urlsAnalytics =
                     AList.update (t_alias r)
                       (u\<lparr>data_totalClicks := data_totalClicks u + total_clicks r,
                          data_users := set_add (data_users u) (ip_address r)\<rparr>)
                       (st_urlsAnalytics st)\<rparr>)"

fun topic_forEach :: "event_tuple list \<Rightarrow> topic_state \<Rightarrow> error + topic_state" where
  "topic_forEach [] st = Inr st"
| "topic_forEach (r # rs) st =
     (case topic_step st r of
        Inl e \<Rightarrow> Inl e
      | Inr st' \<Rightarrow> topic_forEach rs st')"

text \<open>
  \<^verbatim>\<open>Object.keys(urlsAnalytics).map(...)\<close>: \<^verbatim>\<open>urlsResults.find\<close> gives \<^verbatim>\<open>undefined\<close> when no
  row has the alias as its \<^verbatim>\<open>short_url\<close>, and \<^verbatim>\<open>urlInfo.short_url\<close> throws then.
\<close>

fun urlsAnalyticsArray :: "url_row list \<Rightarrow> (string \<times> url_data) list \<Rightarrow> error + url_stats list" where
  "urlsAnalyticsArray urlsResults [] = Inr []"
| "urlsAnalyticsArray urlsResults ((a, u) # rest) =
     (case find (\<lambda>url. short_url url = a) urlsResults of
        None \<Rightarrow> Inl TypeError
      | Some urlInfo \<Rightarrow>
          (case urlsAnalyticsArray urlsResults rest of
             Inl e \<Rightarrow> Inl e
           | Inr out \<Rightarrow>
               Inr (\<lparr>shortUrl = short_url urlInfo, url_totalClicks = data_totalClicks u,
                      url_uniqueUsers = length (data_users u)\<rparr> # out)))"

text \<open>The callback of the topic's analytics query.\<close>

definition topic_rollup :: "url_row list \<Rightarrow> event_tuple list \<Rightarrow> error + topic_report" where
  "topic_rollup urlsResults analyticsResults =
     (case topic_forEach analyticsResults
             \<lparr>st_totalClicks = 0, st_uniqueUsersSet = [], st_clicksByDate = [],
              st_urlsAnalytics = []\<rparr> of
        Inl e \<Rightarrow> Inl e
      | Inr st \<Rightarrow>
          (case urlsAnalyticsArray urlsResults (own_entries (st_urlsAnalytics st)) of
             Inl e \<Rightarrow> Inl e
           | Inr url_list \<Rightarrow>
               Inr \<lparr>totalClicks = st_totalClicks st,
                    uniqueUsers = length (st_uniqueUsersSet st),
                    clicksByDate =
                      map (\<lambda>(d, count). \<lparr>date_key = d, clickCount = count\<rparr>)
                        (own_entries (st_clicksByDate st)),
                    report_urls = url_list\<rparr>))"

text \<open>
  \<open>urls_err\<close> says whether the database reports an error for the first statement;
  \<open>queryGroupedEvents\<close> is its answer to the grouped statement built from the list of the
  topic's \<^verbatim>\<open>short_url\<close> values (\<open>None\<close> for an error; the statement selects
  \<^verbatim>\<open>user_agent\<close> without grouping by it, which a server in \<^verbatim>\<open>ONLY_FULL_GROUP_BY\<close> mode
  answers with an error).
\<close>

definition getTopicReport ::
  "db \<Rightarrow> bool \<Rightarrow> (string list \<Rightarrow> event_tuple list option) \<Rightarrow> string \<Rightarrow> error + topic_report"
where
  "getTopicReport d urls_err queryGroupedEvents t =
     (if urls_err then Inl StorageError
      else
        let urlsResults = topicUrlsQuery d t in
        if urlsResults = [] then Inl NotFound
        else
          case queryGroupedEvents (map short_url urlsResults) of
            None \<Rightarrow> Inl StorageError
          | Some analyticsResults \<Rightarrow> topic_rollup urlsResults analyticsResults)"

section \<open>Auxiliary notions for the statements\<close>

text \<open>The bucket a row is counted in by a loop that classifies with \<open>classify\<close>.\<close>

definition bucket_of :: "(string \<Rightarrow> string) \<Rightarrow> event_tuple \<Rightarrow> string" where
  "bucket_of classify r =
     (case user_agent r of Str s \<Rightarrow> classify (map lower_chr s) | _ \<Rightarrow> [])"

definition is_Str :: "js_value \<Rightarrow> bool" where
  "is_Str v = (case v of Str s \<Rightarrow> True | _ \<Rightarrow> False)"

text \<open>
  What a classifying loop has built after the rows \<open>ps\<close>: one entry per bucket that
  occurs, holding the clicks and the addresses of the rows of that bucket.
\<close>

definition bucket_inv :: "(string \<Rightarrow> string) \<Rightarrow> event_tuple list \<Rightarrow> bucket_data js_object \<Rightarrow> bool" where
  "bucket_inv classify ps m =
     (distinct (map fst m) \<and>
      (\<forall>k. map_of m k =
         (if k \<in> bucket_of classify ` set ps
          then Some \<lparr>data_name = k,
                 data_uniqueClicks = sum_list (map total_clicks (filter (\<lambda>r. bucket_of classify r = k) ps)),
                 data_uniqueUsers = new_Set (map ip_address (filter (\<lambda>r. bucket_of classify r = k) ps))\<rparr>
          else None)))"

text \<open>
  What the first loop has built after the rows \<open>ps\<close>: one entry per formatted date
  that passes the comparison, holding the clicks of the rows of that date.
\<close>

definition date_inv :: "string \<Rightarrow> event_tuple list \<Rightarrow> nat js_object \<Rightarrow> bool" where
  "date_inv sevenDaysAgo ps m =
     (distinct (map fst m) \<and>
      (\<forall>k. map_of m k =
         (if k \<in> (\<lambda>r. format_date (click_date r)) ` set ps \<and> str_ge k sevenDaysAgo
          then Some (sum_list (map total_clicks (filter (\<lambda>r. format_date (click_date r) = k) ps)))
          else None)))"

text \<open>How a nullable text column of a stored row reads in a result row.\<close>

definition column_value :: "string option \<Rightarrow> js_value" where
  "column_value c = (case c of None \<Rightarrow> Null | Some s \<Rightarrow> Str s)"

text \<open>
  The classification in the words of the specification: a case-insensitive substring
  match (some part of the agent, lower-cased, is the word); the words of the operating
  systems tried in a fixed order, the first match winning, with a default.
\<close>

definition spec_contains :: "string \<Rightarrow> string \<Rightarrow> bool" where
  "spec_contains agent word =
     (\<exists>pre mid post. agent = pre @ mid @ post \<and> map lower_chr mid = word)"

definition spec_os_order :: "(string \<times> string) list" where
  "spec_os_order =
     [(''windows'', ''Windows''), (''mac'', ''macOS''), (''linux'', ''Linux''),
      (''android'', ''Android''), (''ios'', ''iOS''), (''iphone'', ''iOS'')]"

definition spec_osName :: "string \<Rightarrow> string" where
  "spec_osName agent =
     (case find (\<lambda>wn. spec_contains agent (fst wn)) spec_os_order of
        Some wn \<Rightarrow> snd wn
      | None \<Rightarrow> ''Other'')"

definition spec_deviceName :: "string \<Rightarrow> string" where
  "spec_deviceName agent =
     (if spec_contains agent ''mobile'' \<or> spec_contains agent ''android''
         \<or> spec_contains agent ''iphone''
      then ''mobile'' else ''desktop'')"

text \<open>
  The order of the calendar, and the dates of the calendar with a year of at most four
  digits (the dates a \<^verbatim>\<open>DATE\<close> column holds, and the dates of the computation).
\<close>

definition date_lt :: "date \<Rightarrow> date \<Rightarrow> bool" where
  "date_lt a b =
     (year a < year b
      \<or> (year a = year b \<and> (month a < month b \<or> (month a = month b \<and> day a < day b))))"

definition valid_date :: "date \<Rightarrow> bool" where
  "valid_date d =
     (1 \<le> year d \<and> year d \<le> 9999 \<and> 1 \<le> month d \<and> month d \<le> 12
      \<and> 1 \<le> day d \<and> day d \<le> days_in_month (year d) (month d))"

text \<open>The last \<open>w\<close> decimal digits of a number.\<close>

fun fixed_width :: "nat \<Rightarrow> nat \<Rightarrow> string" where
  "fixed_width 0 n = []"
| "fixed_width (Suc w) n = fixed_width w (n div 10) @ [char_of (48 + n mod 10)]"

text \<open>
  A concrete input for the aggregator: two groups of 1 January 2024, one of 20 December
  2023 and one of 1 February 2024, aggregated on 3 January 2024, and the response computed
  from them.
\<close>

definition example_tuples :: "event_tuple list" where
  "example_tuples =
     [\<lparr>t_alias = ''a'', click_date = Date 2024 1 1, user_agent = Str ''Mozilla Windows'',
       total_clicks = 3, unique_users = 2, ip_address = Str ''1.1.1.1''\<rparr>,
      \<lparr>t_alias = ''a'', click_date = Date 2024 1 1, user_agent = Str ''Mozilla iPhone'',
       total_clicks = 2, unique_users = 1, ip_address = Str ''2.2.2.2''\<rparr>,
      \<lparr>t_alias = ''a'', click_date = Date 2023 12 20, user_agent = Str ''WINDOWS NT'',
       total_clicks = 4, unique_users = 3, ip_address = Str ''1.1.1.1''\<rparr>,
      \<lparr>t_alias = ''a'', click_date = Date 2024 2 1, user_agent = Str [],
       total_clicks = 1, unique_users = 1, ip_address = Undefined\<rparr>]"

definition example_report :: alias_report where
  "example_report =
     \<lparr>totalClicks = 10, uniqueUsers = 3,
      clicksByDate = [\<lparr>date_key = ''2024-01-01'', clickCount = 5\<rparr>,
                      \<lparr>date_key = ''2024-02-01'', clickCount = 1\<rparr>],
      osType =
        [\<lparr>bucketName = ''Windows'', uniqueClicks = 7, bucketUsers = 1\<rparr>,
         \<lparr>bucketName = ''iOS'', uniqueClicks = 2, bucketUsers = 1\<rparr>,
         \<lparr>bucketName = ''Other'', uniqueClicks = 1, bucketUsers = 1\<rparr>],
      deviceType =
        [\<lparr>bucketName = ''desktop'', uniqueClicks = 8, bucketUsers = 2\<rparr>,
         \<lparr>bucketName = ''mobile'', uniqueClicks = 2, bucketUsers = 1\<rparr>]\<rparr>"

text \<open>The dates whose fields fill the widths of \<^verbatim>\<open>YYYY-MM-DD\<close> exactly.\<close>

definition fits_format :: "date \<Rightarrow> bool" where
  "fits_format d = (year d < 10000 \<and> month d < 100 \<and> day d < 100)"

text \<open>A database with one registered URL and no recorded event.\<close>

definition example_db :: db where
  "example_db =
     \<lparr>urls = [\<lparr>long_url = ''http://x.com'', short_url = ''abc'', custom_alias = Some ''abc'',
               topic = Some ''news''\<rparr>],
      url_analytics = []\<rparr>"

text \<open>
  What the loop of the topic report has built after the rows \<open>ps\<close>: the clicks and the
  addresses of all rows, and one \<^verbatim>\<open>urlsAnalytics\<close> entry per alias that occurs.
\<close>

definition topic_inv :: "event_tuple list \<Rightarrow> topic_state \<Rightarrow> bool" where
  "topic_inv ps st =
     (st_totalClicks st = sum_list (map total_clicks ps) \<and>
      st_uniqueUsersSet st = new_Set (map ip_address ps) \<and>
      distinct (map fst (st_urlsAnalytics st)) \<and>
      (\<forall>k. map_of (st_urlsAnalytics st) k =
         (if k \<in> t_alias ` set ps
          then Some \<lparr>data_totalClicks = sum_list (map total_clicks (filter (\<lambda>r. t_alias r = k) ps)),
                 data_users = new_Set (map ip_address (filter (\<lambda>r. t_alias r = k) ps))\<rparr>
          else None)))"

text \<open>
  A topic whose only URL has the custom alias \<^verbatim>\<open>constructor\<close>, as \<^verbatim>\<open>POST /shorten\<close> stores
  it, and the row of one recorded click on it.
\<close>

definition constructor_db :: db where
  "constructor_db =
     \<lparr>urls = [\<lparr>long_url = ''http://x.com'', short_url = ''constructor'',
               custom_alias = Some ''constructor'', topic = Some ''news''\<rparr>],
      url_analytics = []\<rparr>"

definition constructor_tuple :: event_tuple where
  "constructor_tuple =
     \<lparr>t_alias = ''constructor'', click_date = Date 2024 1 1, user_agent = Str ''Mozilla'',
      total_clicks = 1, unique_users = 1, ip_address = Undefined\<rparr>"

section \<open>Folds, sets and objects\<close>

lemma foldl_add_total_clicks:
  "foldl (\<lambda>sum r. sum + total_clicks r) a rs = a + sum_list (map total_clicks rs)"
  by (induction rs arbitrary: a) simp_all

lemma sum_total_clicks_sum_list: "sum_total_clicks rs = sum_list (map total_clicks rs)"
  by (simp add: sum_total_clicks_def foldl_add_total_clicks)

lemma set_set_add: "set (set_add s v) = insert v (set s)"
  by (auto simp: set_add_def)

lemma distinct_set_add: "distinct s \<Longrightarrow> distinct (set_add s v)"
  by (simp add: set_add_def)

lemma foldl_set_add: "set (foldl set_add s vs) = set s \<union> set vs"
  by (induction vs arbitrary: s) (auto simp: set_set_add)

lemma distinct_foldl_set_add: "distinct s \<Longrightarrow> distinct (foldl set_add s vs)"
  by (induction vs arbitrary: s) (simp_all add: distinct_set_add)

lemma set_new_Set: "set (new_Set vs) = set vs"
  by (simp add: new_Set_def foldl_set_add)

lemma distinct_new_Set: "distinct (new_Set vs)"
  by (simp add: new_Set_def distinct_foldl_set_add)

lemma length_new_Set: "length (new_Set vs) = card (set vs)"
  using distinct_card [OF distinct_new_Set, of vs] by (simp add: set_new_Set)

lemma new_Set_snoc: "new_Set (vs @ [v]) = set_add (new_Set vs) v"
  by (simp add: new_Set_def)

lemma mset_own_entries: "mset (own_entries m) = mset m"
  by (simp add: own_entries_def)

lemma set_own_entries: "set (own_entries m) = set m"
  using mset_own_entries [of m] by (metis set_mset_mset)

lemma distinct_keys_own_entries:
  "distinct (map fst (own_entries m)) = distinct (map fst m)"
proof -
  have "mset (map fst (own_entries m)) = mset (map fst m)"
    by (simp add: mset_own_entries)
  then show ?thesis by (rule mset_eq_imp_distinct_iff)
qed

lemma sum_list_own_entries:
  "sum_list (map f (own_entries m)) = (sum_list (map f m) :: nat)"
proof -
  have "mset (map f (own_entries m)) = mset (map f m)"
    by (simp add: mset_own_entries)
  then show ?thesis by (metis sum_mset_sum_list)
qed

section \<open>The classifying loops\<close>

lemma toLowerCase_Inr: "toLowerCase v = Inr s \<longleftrightarrow> (\<exists>u. v = Str u \<and> s = map lower_chr u)"
  by (cases v) auto

lemma toLowerCase_Inl: "toLowerCase v = Inl e \<longleftrightarrow> (\<not> is_Str v \<and> e = TypeError)"
  by (cases v) (auto simp: is_Str_def)

lemma bucket_inv_Nil: "bucket_inv classify [] []"
  by (simp add: bucket_inv_def)

lemma filter_empty_notin: "k \<notin> f ` set ps \<Longrightarrow> filter (\<lambda>r. f r = k) ps = []"
  by (induction ps) auto

lemma bucket_step_inv:
  assumes "bucket_inv classify ps m" and "bucket_step classify m r = Inr m'"
  shows "bucket_inv classify (ps @ [r]) m'"
proof -
  from assms(2) obtain u where u: "user_agent r = Str u"
    by (auto simp: bucket_step_def toLowerCase_Inr split: sum.splits)
  define k0 where "k0 = classify (map lower_chr u)"
  have key: "bucket_of classify r = k0" by (simp add: bucket_of_def u k0_def)
  define b where "b = (case map_of m k0 of Some b \<Rightarrow> b
      | None \<Rightarrow> \<lparr>data_name = k0, data_uniqueClicks = 0, data_uniqueUsers = []\<rparr>)"
  define b' where "b' = b\<lparr>data_uniqueClicks := data_uniqueClicks b + total_clicks r,
        data_uniqueUsers := set_add (data_uniqueUsers b) (ip_address r)\<rparr>"
  have m': "m' = AList.update k0 b' m"
    using assms(2) unfolding b'_def b_def k0_def by (simp add: bucket_step_def u Let_def)
  have b: "b = \<lparr>data_name = k0,
       data_uniqueClicks = sum_list (map total_clicks (filter (\<lambda>r. bucket_of classify r = k0) ps)),
       data_uniqueUsers = new_Set (map ip_address (filter (\<lambda>r. bucket_of classify r = k0) ps))\<rparr>"
    using assms(1) by (auto simp: b_def bucket_inv_def filter_empty_notin new_Set_def)
  have d: "distinct (map fst m')"
    using assms(1) by (simp add: m' bucket_inv_def distinct_update)
  have "map_of m' k =
         (if k \<in> bucket_of classify ` set (ps @ [r])
          then Some \<lparr>data_name = k,
                 data_uniqueClicks = sum_list (map total_clicks (filter (\<lambda>r. bucket_of classify r = k) (ps @ [r]))),
                 data_uniqueUsers = new_Set (map ip_address (filter (\<lambda>r. bucket_of classify r = k) (ps @ [r])))\<rparr>
          else None)" for k
  proof (cases "k = k0")
    case True
    then show ?thesis
      by (simp add: m' update_conv' key b'_def b new_Set_snoc)
  next
    case False
    then show ?thesis
      using assms(1) by (simp add: m' update_conv' key bucket_inv_def)
  qed
  with d show ?thesis by (simp add: bucket_inv_def)
qed

lemma bucket_forEach_inv:
  "bucket_inv classify ps m \<Longrightarrow> bucket_forEach classify rs m = Inr m'
     \<Longrightarrow> bucket_inv classify (ps @ rs) m'"
proof (induction rs arbitrary: ps m)
  case Nil
  then show ?case by simp
next
  case (Cons r rs)
  from Cons.prems(2) obtain m1 where s: "bucket_step classify m r = Inr m1"
    and f: "bucket_forEach classify rs m1 = Inr m'"
    by (auto split: sum.splits)
  from Cons.IH [OF bucket_step_inv [OF Cons.prems(1) s] f] show ?case by simp
qed

lemma bucket_step_Inl: "bucket_step classify m r = Inl e \<longleftrightarrow> (\<not> is_Str (user_agent r) \<and> e = TypeError)"
  by (cases "user_agent r") (auto simp: bucket_step_def is_Str_def Let_def)

lemma bucket_forEach_Inl:
  "bucket_forEach classify rs m = Inl e \<longleftrightarrow> ((\<exists>r \<in> set rs. \<not> is_Str (user_agent r)) \<and> e = TypeError)"
proof (induction rs arbitrary: m)
  case Nil
  then show ?case by simp
next
  case (Cons r rs)
  show ?case
  proof (cases "bucket_step classify m r")
    case (Inl e')
    then have "e' = TypeError" "\<not> is_Str (user_agent r)"
      by (simp_all add: bucket_step_Inl)
    with Inl show ?thesis by auto
  next
    case (Inr m1)
    then have "is_Str (user_agent r)"
      using bucket_step_Inl [of classify m r TypeError] by auto
    with Inr show ?thesis by (simp add: Cons.IH)
  qed
qed

lemma sum_list_update:
  "sum_list (map (\<lambda>kv. f (snd kv)) (AList.update k v m)) + (case map_of m k of None \<Rightarrow> 0 | Some b \<Rightarrow> f b)
     = sum_list (map (\<lambda>kv. f (snd kv)) m) + (f v :: nat)"
  by (induction m) auto

lemma bucket_step_sum:
  assumes "bucket_step classify m r = Inr m'"
  shows "sum_list (map (\<lambda>kv. data_uniqueClicks (snd kv)) m')
           = sum_list (map (\<lambda>kv. data_uniqueClicks (snd kv)) m) + total_clicks r"
proof -
  from assms obtain u where u: "user_agent r = Str u"
    by (auto simp: bucket_step_def toLowerCase_Inr split: sum.splits)
  define k where "k = classify (map lower_chr u)"
  define b where "b = (case map_of m k of Some b \<Rightarrow> b
      | None \<Rightarrow> \<lparr>data_name = k, data_uniqueClicks = 0, data_uniqueUsers = []\<rparr>)"
  define b' where "b' = b\<lparr>data_uniqueClicks := data_uniqueClicks b + total_clicks r,
        data_uniqueUsers := set_add (data_uniqueUsers b) (ip_address r)\<rparr>"
  have m': "m' = AList.update k b' m"
    using assms unfolding b'_def b_def k_def by (simp add: bucket_step_def u Let_def)
  have old: "(case map_of m k of None \<Rightarrow> 0 | Some b \<Rightarrow> data_uniqueClicks b) = data_uniqueClicks b"
    by (simp add: b_def split: option.splits)
  have new: "data_uniqueClicks b' = data_uniqueClicks b + total_clicks r"
    by (simp add: b'_def)
  show ?thesis
    using sum_list_update [of data_uniqueClicks k b' m] by (simp add: m' old new)
qed

lemma bucket_forEach_sum:
  "bucket_forEach classify rs m = Inr m' \<Longrightarrow>
     sum_list (map (\<lambda>kv. data_uniqueClicks (snd kv)) m')
       = sum_list (map (\<lambda>kv. data_uniqueClicks (snd kv)) m) + sum_list (map total_clicks rs)"
proof (induction rs arbitrary: m)
  case Nil
  then show ?case by simp
next
  case (Cons r rs)
  from Cons.prems obtain m1 where s: "bucket_step classify m r = Inr m1"
    and f: "bucket_forEach classify rs m1 = Inr m'"
    by (auto split: sum.splits)
  show ?case using Cons.IH [OF f] bucket_step_sum [OF s] by simp
qed

lemma sum_bucket_array:
  "sum_list (map uniqueClicks (bucket_array m)) = sum_list (map (\<lambda>kv. data_uniqueClicks (snd kv)) m)"
proof -
  have "map uniqueClicks (bucket_array m) = map (\<lambda>kv. data_uniqueClicks (snd kv)) (own_entries m)"
    by (simp add: bucket_array_def case_prod_beta)
  then show ?thesis by (simp add: sum_list_own_entries)
qed

lemma bucket_inv_entry:
  assumes "bucket_inv classify ps m"
  shows "(k, b) \<in> set m \<longleftrightarrow>
           k \<in> bucket_of classify ` set ps \<and>
           b = \<lparr>data_name = k,
                 data_uniqueClicks = sum_list (map total_clicks (filter (\<lambda>r. bucket_of classify r = k) ps)),
                 data_uniqueUsers = new_Set (map ip_address (filter (\<lambda>r. bucket_of classify r = k) ps))\<rparr>"
proof -
  from assms have d: "distinct (map fst m)" by (simp add: bucket_inv_def)
  have "(k, b) \<in> set m \<longleftrightarrow> map_of m k = Some b" using d by simp
  then show ?thesis using assms by (auto simp: bucket_inv_def)
qed

lemma bucket_inv_set:
  assumes "bucket_inv classify ps m"
  shows "set m =
          (\<lambda>k. (k, \<lparr>data_name = k,
                 data_uniqueClicks = sum_list (map total_clicks (filter (\<lambda>r. bucket_of classify r = k) ps)),
                 data_uniqueUsers = new_Set (map ip_address (filter (\<lambda>r. bucket_of classify r = k) ps))\<rparr>))
           ` bucket_of classify ` set ps" (is "_ = ?g ` ?K")
proof (rule set_eqI)
  fix kb :: "string \<times> bucket_data"
  obtain k b where kb: "kb = (k, b)" by (cases kb)
  have "kb \<in> set m \<longleftrightarrow> k \<in> ?K \<and> b = snd (?g k)"
    using bucket_inv_entry [OF assms, of k b] by (simp add: kb)
  also have "\<dots> \<longleftrightarrow> kb \<in> ?g ` ?K"
    unfolding kb by (auto simp del: image_image) 
  finally show "kb \<in> set m \<longleftrightarrow> kb \<in> ?g ` ?K" .
qed

lemma bucket_inv_keys:
  assumes "bucket_inv classify ps m"
  shows "fst ` set m = bucket_of classify ` set ps"
  by (simp add: bucket_inv_set [OF assms] image_image)

lemma set_bucket_array:
  assumes "bucket_inv classify ps m"
  shows "set (bucket_array m) =
          (\<lambda>k. \<lparr>bucketName = k,
                 uniqueClicks = sum_list (map total_clicks (filter (\<lambda>r. bucket_of classify r = k) ps)),
                 bucketUsers = card (ip_address ` {r \<in> set ps. bucket_of classify r = k})\<rparr>)
           ` bucket_of classify ` set ps"
proof -
  have c: "length (new_Set (map ip_address (filter (\<lambda>r. bucket_of classify r = k) ps)))
            = card (ip_address ` {r \<in> set ps. bucket_of classify r = k})" for k
    by (simp add: length_new_Set)
  have "set (bucket_array m) = (\<lambda>(k, b). \<lparr>bucketName = data_name b, uniqueClicks = data_uniqueClicks b,
                    bucketUsers = length (data_uniqueUsers b)\<rparr>) ` set m"
    by (simp add: bucket_array_def set_own_entries)
  also have "\<dots> = (\<lambda>k. \<lparr>bucketName = k,
                 uniqueClicks = sum_list (map total_clicks (filter (\<lambda>r. bucket_of classify r = k) ps)),
                 bucketUsers = card (ip_address ` {r \<in> set ps. bucket_of classify r = k})\<rparr>)
           ` bucket_of classify ` set ps"
    by (simp add: bucket_inv_set [OF assms] image_image c)
  finally show ?thesis .
qed

lemma names_bucket_array:
  assumes "bucket_inv classify ps m"
  shows "map bucketName (bucket_array m) = map fst (own_entries m)"
proof -
  have "\<forall>kv \<in> set (own_entries m). data_name (snd kv) = fst kv"
    using bucket_inv_entry [OF assms] by (auto simp: set_own_entries)
  then show ?thesis by (simp add: bucket_array_def case_prod_beta)
qed

lemma distinct_names_bucket_array:
  assumes "bucket_inv classify ps m"
  shows "distinct (map bucketName (bucket_array m))"
  using assms by (simp add: names_bucket_array [OF assms] distinct_keys_own_entries bucket_inv_def)

section \<open>The loop over the dates\<close>


lemma date_inv_Nil: "date_inv s [] []"
  by (simp add: date_inv_def)

lemma clicksByDate_step_inv:
  assumes "date_inv s ps m"
  shows "date_inv s (ps @ [r]) (clicksByDate_step s m r)"
proof -
  define k0 where "k0 = format_date (click_date r)"
  show ?thesis
  proof (cases "str_ge k0 s")
    case False
    then have "clicksByDate_step s m r = m"
      by (simp add: clicksByDate_step_def k0_def)
    moreover have "date_inv s (ps @ [r]) m"
      using assms False unfolding date_inv_def k0_def by auto
    ultimately show ?thesis by simp
  next
    case True
    define c where "c = (case map_of m k0 of None \<Rightarrow> 0 | Some c \<Rightarrow> c)"
    have m': "clicksByDate_step s m r = AList.update k0 (c + total_clicks r) m"
      using True unfolding c_def k0_def by (simp add: clicksByDate_step_def Let_def)
    have c: "c = sum_list (map total_clicks (filter (\<lambda>r. format_date (click_date r) = k0) ps))"
      using assms True by (auto simp: c_def date_inv_def filter_empty_notin)
    have d: "distinct (map fst (AList.update k0 (c + total_clicks r) m))"
      using assms by (simp add: date_inv_def distinct_update)
    have "map_of (AList.update k0 (c + total_clicks r) m) k =
         (if k \<in> (\<lambda>r. format_date (click_date r)) ` set (ps @ [r]) \<and> str_ge k s
          then Some (sum_list (map total_clicks (filter (\<lambda>r. format_date (click_date r) = k) (ps @ [r]))))
          else None)" for k
    proof (cases "k = k0")
      case True
      with \<open>str_ge k0 s\<close> show ?thesis
        by (simp add: update_conv' c k0_def)
    next
      case False
      then show ?thesis
        using assms by (simp add: update_conv' date_inv_def k0_def)
    qed
    with d show ?thesis by (simp add: date_inv_def m')
  qed
qed

lemma clicksByDate_foldl_inv:
  "date_inv s rs (foldl (clicksByDate_step s) [] rs)"
  by (induction rs rule: rev_induct) (simp_all add: date_inv_Nil clicksByDate_step_inv)

lemma date_inv_entry:
  assumes "date_inv s ps m"
  shows "(k, c) \<in> set m \<longleftrightarrow>
           (k \<in> (\<lambda>r. format_date (click_date r)) ` set ps \<and> str_ge k s \<and>
            c = sum_list (map total_clicks (filter (\<lambda>r. format_date (click_date r) = k) ps)))"
proof -
  from assms have d: "distinct (map fst m)" by (simp add: date_inv_def)
  have "(k, c) \<in> set m \<longleftrightarrow> map_of m k = Some c" using d by simp
  then show ?thesis using assms by (auto simp: date_inv_def)
qed

lemma clicksByDateArray_keys:
  "map date_key (clicksByDateArray today rs) =
     map fst (own_entries (foldl (clicksByDate_step (format_date (subtract_days 7 today))) [] rs))"
  by (simp add: clicksByDateArray_def case_prod_beta)

lemma clicksByDateArray_mem:
  "e \<in> set (clicksByDateArray today rs) \<longleftrightarrow>
     (date_key e \<in> (\<lambda>r. format_date (click_date r)) ` set rs \<and>
      str_ge (date_key e) (format_date (subtract_days 7 today)) \<and>
      clickCount e = sum_list (map total_clicks (filter (\<lambda>r. format_date (click_date r) = date_key e) rs)))"
proof -
  let ?s = "format_date (subtract_days 7 today)"
  let ?m = "foldl (clicksByDate_step ?s) [] rs"
  have "e \<in> set (clicksByDateArray today rs) \<longleftrightarrow> (date_key e, clickCount e) \<in> set ?m"
  proof
    assume "e \<in> set (clicksByDateArray today rs)"
    then obtain k c where "(k, c) \<in> set ?m" "e = \<lparr>date_key = k, clickCount = c\<rparr>"
      by (auto simp: clicksByDateArray_def set_own_entries)
    then show "(date_key e, clickCount e) \<in> set ?m" by simp
  next
    assume "(date_key e, clickCount e) \<in> set ?m"
    then have "(\<lambda>(d, count). \<lparr>date_key = d, clickCount = count\<rparr>) (date_key e, clickCount e)
                 \<in> set (clicksByDateArray today rs)"
      unfolding clicksByDateArray_def Let_def set_map set_own_entries by (rule imageI)
    then show "e \<in> set (clicksByDateArray today rs)" by (cases e) simp
  qed
  then show ?thesis
    using date_inv_entry [OF clicksByDate_foldl_inv, of "date_key e" "clickCount e" ?s rs] by simp
qed

lemma clicksByDateArray_distinct:
  "distinct (map date_key (clicksByDateArray today rs))"
  using clicksByDate_foldl_inv [of "format_date (subtract_days 7 today)" rs]
  by (simp add: clicksByDateArray_keys distinct_keys_own_entries date_inv_def)

section \<open>The report of an alias\<close>

lemma subtract_days_7:
  "subtract_days 7 d = prev_day (prev_day (prev_day (prev_day (prev_day (prev_day (prev_day d))))))"
  by (simp add: subtract_days_def eval_nat_numeral)

lemmas eval_simps = aggregate_def sum_total_clicks_def count_unique_users_def new_Set_def set_add_def
  clicksByDateArray_def clicksByDate_step_def subtract_days_7 days_in_month_def is_leap_def
  format_date_def zeroFill_def char_of_eq_iff str_ge_def own_entries_def is_array_index_def
  is_digit_def index_value_def bucket_step_def osName_of_def deviceName_of_def lower_chr_def
  bucket_array_def Let_def dec.simps

lemma aggregate_example: "aggregate (Date 2024 1 3) example_tuples = Inr example_report"
  by (simp add: example_tuples_def example_report_def eval_simps)

lemma aggregate_InrE:
  assumes "aggregate today rs = Inr r"
  obtains osTypeMap deviceTypeMap where
    "bucket_forEach osName_of rs [] = Inr osTypeMap"
    "bucket_forEach deviceName_of rs [] = Inr deviceTypeMap"
    "r = \<lparr>totalClicks = sum_total_clicks rs, uniqueUsers = count_unique_users rs,
          clicksByDate = clicksByDateArray today rs,
          osType = bucket_array osTypeMap, deviceType = bucket_array deviceTypeMap\<rparr>"
  using assms by (auto simp: aggregate_def Let_def split: sum.splits)

lemma bucket_forEach_start_inv:
  "bucket_forEach classify rs [] = Inr m \<Longrightarrow> bucket_inv classify rs m"
  using bucket_forEach_inv [OF bucket_inv_Nil, of classify rs m] by simp

lemma bucket_forEach_start_sum:
  "bucket_forEach classify rs [] = Inr m \<Longrightarrow>
     sum_list (map uniqueClicks (bucket_array m)) = sum_list (map total_clicks rs)"
  using bucket_forEach_sum [of classify rs "[]" m] by (simp add: sum_bucket_array)

lemma bucket_array_users:
  assumes "bucket_inv classify ps m" and "b \<in> set (bucket_array m)"
  shows "bucketUsers b = card (ip_address ` {r \<in> set ps. bucket_of classify r = bucketName b})"
    and "uniqueClicks b = sum_list (map total_clicks (filter (\<lambda>r. bucket_of classify r = bucketName b) ps))"
    and "bucketName b \<in> bucket_of classify ` set ps"
  using assms(2) unfolding set_bucket_array [OF assms(1)] by auto

text \<open>The three properties of the callback that the report of an alias rests on.\<close>

lemma aggregate_osType_clicks:
  assumes "aggregate today tuples = Inr r"
  shows "sum_list (map uniqueClicks (osType r)) = totalClicks r
         \<and> totalClicks r = sum_list (map total_clicks tuples)"
proof -
  from assms obtain osTypeMap deviceTypeMap where
    os: "bucket_forEach osName_of tuples [] = Inr osTypeMap" and
    r: "r = \<lparr>totalClicks = sum_total_clicks tuples, uniqueUsers = count_unique_users tuples,
          clicksByDate = clicksByDateArray today tuples,
          osType = bucket_array osTypeMap, deviceType = bucket_array deviceTypeMap\<rparr>"
    by (rule aggregate_InrE)
  show ?thesis
    by (simp add: r bucket_forEach_start_sum [OF os] sum_total_clicks_sum_list)
qed

lemma aggregate_uniqueUsers:
  assumes "aggregate today tuples = Inr r"
  shows "uniqueUsers r = card (ip_address ` set tuples)
         \<and> (\<forall>b \<in> set (osType r).
               bucketUsers b = card (ip_address ` {t \<in> set tuples. bucket_of osName_of t = bucketName b}))
         \<and> (\<forall>b \<in> set (deviceType r).
               bucketUsers b = card (ip_address ` {t \<in> set tuples. bucket_of deviceName_of t = bucketName b}))"
proof -
  from assms obtain osTypeMap deviceTypeMap where
    os: "bucket_forEach osName_of tuples [] = Inr osTypeMap" and
    dev: "bucket_forEach deviceName_of tuples [] = Inr deviceTypeMap" and
    r: "r = \<lparr>totalClicks = sum_total_clicks tuples, uniqueUsers = count_unique_users tuples,
          clicksByDate = clicksByDateArray today tuples,
          osType = bucket_array osTypeMap, deviceType = bucket_array deviceTypeMap\<rparr>"
    by (rule aggregate_InrE)
  have "uniqueUsers r = card (ip_address ` set tuples)"
    by (simp add: r count_unique_users_def length_new_Set)
  moreover have "\<forall>b \<in> set (osType r).
      bucketUsers b = card (ip_address ` {t \<in> set tuples. bucket_of osName_of t = bucketName b})"
    using bucket_array_users(1) [OF bucket_forEach_start_inv [OF os]] by (simp add: r)
  moreover have "\<forall>b \<in> set (deviceType r).
      bucketUsers b = card (ip_address ` {t \<in> set tuples. bucket_of deviceName_of t = bucketName b})"
    using bucket_array_users(1) [OF bucket_forEach_start_inv [OF dev]] by (simp add: r)
  ultimately show ?thesis by blast
qed

text \<open>
  On the rows the analytics statement returns, which have no \<^verbatim>\<open>ip_address\<close> column, the
  count is 1 as soon as there is a row.
\<close>

lemma uniqueUsers_without_ip_address_column:
  assumes "aggregate today tuples = Inr r" and "\<forall>t \<in> set tuples. ip_address t = Undefined"
  shows "uniqueUsers r = (if tuples = [] then 0 else 1)"
proof -
  from assms(1) have u: "uniqueUsers r = card (ip_address ` set tuples)"
    by (elim aggregate_InrE) (simp add: count_unique_users_def length_new_Set)
  show ?thesis
  proof (cases "tuples = []")
    case True
    with u show ?thesis by simp
  next
    case False
    with assms(2) have "ip_address ` set tuples = {Undefined}" by (cases tuples) auto
    with u False show ?thesis by simp
  qed
qed

section \<open>The classification of user agents\<close>

lemma startsWith_iff: "startsWith s p \<longleftrightarrow> (\<exists>zs. s = p @ zs)"
  by (induction s p rule: startsWith.induct) auto

lemma str_includes_iff: "str_includes s p \<longleftrightarrow> (\<exists>xs zs. s = xs @ p @ zs)"
proof (induction s)
  case Nil
  then show ?case by auto
next
  case (Cons c cs)
  have "(\<exists>xs zs. c # cs = xs @ p @ zs) \<longleftrightarrow> (\<exists>zs. c # cs = p @ zs) \<or> (\<exists>xs zs. cs = xs @ p @ zs)"
  proof
    assume "\<exists>xs zs. c # cs = xs @ p @ zs"
    then obtain xs zs where e: "c # cs = xs @ p @ zs" by blast
    show "(\<exists>zs. c # cs = p @ zs) \<or> (\<exists>xs zs. cs = xs @ p @ zs)"
    proof (cases xs)
      case Nil
      with e show ?thesis by auto
    next
      case (Cons x xs')
      with e have "cs = xs' @ p @ zs" by simp
      then show ?thesis by blast
    qed
  next
    assume "(\<exists>zs. c # cs = p @ zs) \<or> (\<exists>xs zs. cs = xs @ p @ zs)"
    then show "\<exists>xs zs. c # cs = xs @ p @ zs"
    proof
      assume "\<exists>zs. c # cs = p @ zs"
      then obtain zs where "c # cs = [] @ p @ zs" by auto
      then show ?thesis by blast
    next
      assume "\<exists>xs zs. cs = xs @ p @ zs"
      then obtain xs zs where "c # cs = (c # xs) @ p @ zs" by auto
      then show ?thesis by blast
    qed
  qed
  then show ?case by (simp add: Cons.IH startsWith_iff)
qed

lemma spec_contains_iff: "spec_contains agent word \<longleftrightarrow> str_includes (map lower_chr agent) word"
proof
  assume "spec_contains agent word"
  then obtain pre mid post where "agent = pre @ mid @ post" "map lower_chr mid = word"
    by (auto simp: spec_contains_def)
  then have "map lower_chr agent = map lower_chr pre @ word @ map lower_chr post" by simp
  then show "str_includes (map lower_chr agent) word" unfolding str_includes_iff by blast
next
  assume "str_includes (map lower_chr agent) word"
  then obtain xs zs where e: "map lower_chr agent = xs @ word @ zs"
    unfolding str_includes_iff by blast
  define pre where "pre = take (length xs) agent"
  define mid where "mid = take (length word) (drop (length xs) agent)"
  define post where "post = drop (length word) (drop (length xs) agent)"
  have "agent = pre @ mid @ post"
    unfolding pre_def mid_def post_def by (simp only: append_take_drop_id)
  moreover have "map lower_chr mid = take (length word) (drop (length xs) (map lower_chr agent))"
    by (simp add: mid_def take_map drop_map)
  then have "map lower_chr mid = word" by (simp add: e)
  ultimately show "spec_contains agent word" unfolding spec_contains_def by blast
qed

lemma spec_osName_eq: "spec_osName agent = osName_of (map lower_chr agent)"
  by (simp add: spec_osName_def spec_os_order_def osName_of_def spec_contains_iff)

lemma spec_deviceName_eq: "spec_deviceName agent = deviceName_of (map lower_chr agent)"
  by (simp add: spec_deviceName_def deviceName_of_def spec_contains_iff)

lemma osName_of_range:
  "osName_of s \<in> {''Windows'', ''macOS'', ''Linux'', ''Android'', ''iOS'', ''Other''}"
  by (simp add: osName_of_def)

lemma deviceName_of_range: "deviceName_of s \<in> {''mobile'', ''desktop''}"
  by (simp add: deviceName_of_def)

lemma bucket_forEach_Str:
  assumes "bucket_forEach classify rs m = Inr m'" and "t \<in> set rs"
  shows "is_Str (user_agent t)"
proof (rule ccontr)
  assume "\<not> is_Str (user_agent t)"
  with assms(2) have "bucket_forEach classify rs m = Inl TypeError"
    by (auto simp: bucket_forEach_Inl)
  with assms(1) show False by simp
qed

lemma bucket_forEach_total:
  assumes "\<forall>t \<in> set rs. is_Str (user_agent t)"
  shows "\<exists>m'. bucket_forEach classify rs m = Inr m'"
proof (cases "bucket_forEach classify rs m")
  case (Inl e)
  with assms show ?thesis by (auto simp: bucket_forEach_Inl)
next
  case (Inr m')
  then show ?thesis by blast
qed

lemma unique_bucket:
  assumes "bucket_inv classify ps m" and "t \<in> set ps"
  shows "\<exists>!b. b \<in> set (bucket_array m) \<and> bucketName b = bucket_of classify t"
proof -
  let ?f = "\<lambda>k. \<lparr>bucketName = k,
       uniqueClicks = sum_list (map total_clicks (filter (\<lambda>r. bucket_of classify r = k) ps)),
       bucketUsers = card (ip_address ` {r \<in> set ps. bucket_of classify r = k})\<rparr>"
  have s: "set (bucket_array m) = ?f ` bucket_of classify ` set ps"
    by (rule set_bucket_array [OF assms(1)])
  show ?thesis
  proof (rule ex1I [of _ "?f (bucket_of classify t)"])
    show "?f (bucket_of classify t) \<in> set (bucket_array m)
          \<and> bucketName (?f (bucket_of classify t)) = bucket_of classify t"
      using assms(2) unfolding s by simp
  next
    fix b
    assume "b \<in> set (bucket_array m) \<and> bucketName b = bucket_of classify t"
    then show "b = ?f (bucket_of classify t)" unfolding s by auto
  qed
qed

lemma is_Str_iff: "is_Str v \<longleftrightarrow> (\<exists>s. v = Str s)"
  by (cases v) (simp_all add: is_Str_def)

lemma bucket_of_Str: "user_agent t = Str agent \<Longrightarrow> bucket_of classify t = classify (map lower_chr agent)"
  by (simp add: bucket_of_def)

text \<open>
  C3: every row of a report's input has a string as its user agent, and is counted in
  exactly one \<^verbatim>\<open>osType\<close> entry and exactly one \<^verbatim>\<open>deviceType\<close> entry: the entries named by
  the case-insensitive substring rules of the specification (the words \<^verbatim>\<open>windows\<close>,
  \<^verbatim>\<open>mac\<close>, \<^verbatim>\<open>linux\<close>, \<^verbatim>\<open>android\<close>, then \<^verbatim>\<open>ios\<close> or \<^verbatim>\<open>iphone\<close>, tried in this order, the first match
  winning, \<^verbatim>\<open>Other\<close> by default; \<^verbatim>\<open>mobile\<close> exactly when the agent contains \<^verbatim>\<open>mobile\<close>,
  \<^verbatim>\<open>android\<close> or \<^verbatim>\<open>iphone\<close>, \<^verbatim>\<open>desktop\<close> otherwise). The names computed by the code are
  the names of these rules.
\<close>

theorem userAgent_classified_into_one_bucket:
  assumes "aggregate today tuples = Inr r" and "t \<in> set tuples"
  shows "\<exists>agent. user_agent t = Str agent
           \<and> osName_of (map lower_chr agent) = spec_osName agent
           \<and> deviceName_of (map lower_chr agent) = spec_deviceName agent
           \<and> (\<exists>!b. b \<in> set (osType r) \<and> bucketName b = spec_osName agent)
           \<and> (\<exists>!b. b \<in> set (deviceType r) \<and> bucketName b = spec_deviceName agent)
           \<and> spec_osName agent \<in> {''Windows'', ''macOS'', ''Linux'', ''Android'', ''iOS'', ''Other''}
           \<and> spec_deviceName agent \<in> {''mobile'', ''desktop''}
           \<and> (spec_deviceName agent = ''mobile'' \<longleftrightarrow>
                  spec_contains agent ''mobile'' \<or> spec_contains agent ''android''
                  \<or> spec_contains agent ''iphone'')"
proof -
  from assms(1) obtain osTypeMap deviceTypeMap where
    os: "bucket_forEach osName_of tuples [] = Inr osTypeMap" and
    dev: "bucket_forEach deviceName_of tuples [] = Inr deviceTypeMap" and
    r: "r = \<lparr>totalClicks = sum_total_clicks tuples, uniqueUsers = count_unique_users tuples,
          clicksByDate = clicksByDateArray today tuples,
          osType = bucket_array osTypeMap, deviceType = bucket_array deviceTypeMap\<rparr>"
    by (rule aggregate_InrE)
  from bucket_forEach_Str [OF os assms(2)] obtain agent where a: "user_agent t = Str agent"
    by (auto simp: is_Str_iff)
  have "\<exists>!b. b \<in> set (osType r) \<and> bucketName b = spec_osName agent"
    using unique_bucket [OF bucket_forEach_start_inv [OF os] assms(2)]
    by (simp add: r bucket_of_Str [OF a] spec_osName_eq)
  moreover have "\<exists>!b. b \<in> set (deviceType r) \<and> bucketName b = spec_deviceName agent"
    using unique_bucket [OF bucket_forEach_start_inv [OF dev] assms(2)]
    by (simp add: r bucket_of_Str [OF a] spec_deviceName_eq)
  moreover have "spec_osName agent \<in> {''Windows'', ''macOS'', ''Linux'', ''Android'', ''iOS'', ''Other''}"
    unfolding spec_osName_eq by (rule osName_of_range)
  moreover have "spec_deviceName agent \<in> {''mobile'', ''desktop''}"
    unfolding spec_deviceName_eq by (rule deviceName_of_range)
  moreover have "spec_deviceName agent = ''mobile'' \<longleftrightarrow>
      spec_contains agent ''mobile'' \<or> spec_contains agent ''android'' \<or> spec_contains agent ''iphone''"
    by (simp add: spec_deviceName_def)
  ultimately show ?thesis
    using a by (simp add: spec_osName_eq spec_deviceName_eq)
qed

theorem userAgent_classified_into_one_bucket_witness:
  "aggregate (Date 2024 1 3) example_tuples = Inr example_report
   \<and> example_tuples ! 1 \<in> set example_tuples
   \<and> user_agent (example_tuples ! 1) = Str ''Mozilla iPhone''
   \<and> spec_osName ''Mozilla iPhone'' = ''iOS''
   \<and> spec_deviceName ''Mozilla iPhone'' = ''mobile''
   \<and> (\<exists>!b. b \<in> set (osType example_report) \<and> bucketName b = ''iOS'')
   \<and> (\<exists>!b. b \<in> set (deviceType example_report) \<and> bucketName b = ''mobile'')"
proof -
  have m: "example_tuples ! 1 \<in> set example_tuples" by (simp add: example_tuples_def)
  have u: "user_agent (example_tuples ! 1) = Str ''Mozilla iPhone''"
    by (simp add: example_tuples_def)
  have o: "osName_of (map lower_chr ''Mozilla iPhone'') = ''iOS''"
    by (simp add: osName_of_def lower_chr_def char_of_eq_iff)
  have d: "deviceName_of (map lower_chr ''Mozilla iPhone'') = ''mobile''"
    by (simp add: deviceName_of_def lower_chr_def char_of_eq_iff)
  from userAgent_classified_into_one_bucket [OF aggregate_example m] u o d
  have "spec_osName ''Mozilla iPhone'' = ''iOS''"
    and "spec_deviceName ''Mozilla iPhone'' = ''mobile''"
    and "\<exists>!b. b \<in> set (osType example_report) \<and> bucketName b = ''iOS''"
    and "\<exists>!b. b \<in> set (deviceType example_report) \<and> bucketName b = ''mobile''"
    by auto
  with aggregate_example m u show ?thesis by simp
qed

section \<open>Rows whose user agent is not a string\<close>

lemma aggregate_total:
  assumes "\<forall>t \<in> set rs. is_Str (user_agent t)"
  shows "\<exists>r. aggregate today rs = Inr r"
proof -
  from bucket_forEach_total [OF assms] obtain m1 where
    m1: "bucket_forEach osName_of rs [] = Inr m1" by blast
  from bucket_forEach_total [OF assms] obtain m2 where
    m2: "bucket_forEach deviceName_of rs [] = Inr m2" by blast
  show ?thesis by (simp add: aggregate_def m1 m2 Let_def)
qed

lemma aggregate_TypeError:
  assumes "\<exists>t \<in> set rs. \<not> is_Str (user_agent t)"
  shows "aggregate today rs = Inl TypeError"
proof -
  from assms have "bucket_forEach osName_of rs [] = Inl TypeError"
    by (simp add: bucket_forEach_Inl)
  then show ?thesis by (simp add: aggregate_def Let_def)
qed




text \<open>
  C10: the aggregation returns a report when the user agent of every row is a string (the
  empty string included), and throws a \<open>TypeError\<close> as soon as one row has a user agent
  that is not a string; it does not count such a row as \<^verbatim>\<open>Other\<close> or \<^verbatim>\<open>desktop\<close>. A redirect
  whose request has no \<^verbatim>\<open>user-agent\<close> header stores a NULL user agent, which reads as
  \<^verbatim>\<open>null\<close> in a result row, and the report of a registered alias whose rows include such a
  user agent is the \<open>TypeError\<close>.
\<close>

theorem aggregate_total_only_on_string_agents:
  "((\<forall>t \<in> set tuples. is_Str (user_agent t)) \<longrightarrow> (\<exists>r. aggregate today tuples = Inr r))
   \<and> ((\<exists>t \<in> set tuples. \<not> is_Str (user_agent t)) \<longrightarrow> aggregate today tuples = Inl TypeError)
   \<and> (findUrlQuery d a \<noteq> [] \<longrightarrow>
        (\<exists>event. url_analytics (fst (snd (redirect d False False lookup a None req_ip remoteAddress)))
                   = url_analytics d @ [event]
                 \<and> a_alias event = a \<and> a_user_agent event = None
                 \<and> \<not> is_Str (column_value (a_user_agent event))))
   \<and> (findUrlQuery d a \<noteq> [] \<and> queryGroupedEvents a = Some tuples
        \<and> (\<exists>t \<in> set tuples. user_agent t = column_value None)
        \<longrightarrow> getAliasReport d False queryGroupedEvents today a = Inl TypeError)"
proof -
  have "findUrlQuery d a \<noteq> [] \<longrightarrow>
        (\<exists>event. url_analytics (fst (snd (redirect d False False lookup a None req_ip remoteAddress)))
                   = url_analytics d @ [event]
                 \<and> a_alias event = a \<and> a_user_agent event = None
                 \<and> \<not> is_Str (column_value (a_user_agent event)))"
    by (cases "findUrlQuery d a") (simp_all add: redirect_def Let_def column_value_def is_Str_def)
  moreover have "findUrlQuery d a \<noteq> [] \<and> queryGroupedEvents a = Some tuples
        \<and> (\<exists>t \<in> set tuples. user_agent t = column_value None)
        \<longrightarrow> getAliasReport d False queryGroupedEvents today a = Inl TypeError"
  proof (intro impI, elim conjE)
    assume f: "findUrlQuery d a \<noteq> []" and q: "queryGroupedEvents a = Some tuples"
      and n: "\<exists>t \<in> set tuples. user_agent t = column_value None"
    from n obtain t where "t \<in> set tuples" "user_agent t = Null"
      by (auto simp: column_value_def)
    then have "t \<in> set tuples" "\<not> is_Str (user_agent t)"
      by (simp_all add: is_Str_def)
    then have "\<exists>t \<in> set tuples. \<not> is_Str (user_agent t)" by blast
    then show "getAliasReport d False queryGroupedEvents today a = Inl TypeError"
      using f q by (simp add: getAliasReport_def aggregate_TypeError)
  qed
  ultimately show ?thesis
    using aggregate_total [of tuples today] aggregate_TypeError [of tuples today] by blast
qed

theorem aggregate_total_only_on_string_agents_witness:
  "list_all (\<lambda>t. is_Str (user_agent t)) example_tuples
   \<and> (\<exists>r. aggregate (Date 2024 1 3) example_tuples = Inr r)
   \<and> aggregate (Date 2024 1 3) example_tuples = Inr example_report
   \<and> \<not> is_Str (user_agent ((example_tuples ! 0)\<lparr>user_agent := Null\<rparr>))
   \<and> aggregate (Date 2024 1 3) [(example_tuples ! 0)\<lparr>user_agent := Null\<rparr>] = Inl TypeError
   \<and> findUrlQuery example_db ''abc'' \<noteq> []
   \<and> a_user_agent (last (url_analytics
        (fst (snd (redirect example_db False False (\<lambda>ip. None) ''abc'' None None None))))) = None
   \<and> getAliasReport example_db False (\<lambda>a. Some [(example_tuples ! 0)\<lparr>user_agent := Null\<rparr>])
        (Date 2024 1 3) ''abc'' = Inl TypeError"
proof -
  let ?bad = "(example_tuples ! 0)\<lparr>user_agent := Null\<rparr>"
  note t = aggregate_total_only_on_string_agents
    [of "[?bad]" "Date 2024 1 3" example_db "''abc''" "\<lambda>ip. None" None None "\<lambda>a. Some [?bad]"]
  have s: "list_all (\<lambda>t. is_Str (user_agent t)) example_tuples"
    by (simp add: example_tuples_def is_Str_def)
  from aggregate_total_only_on_string_agents
    [of example_tuples "Date 2024 1 3" example_db "''abc''" "\<lambda>ip. None" None None "\<lambda>a. None"] s
  have 0: "\<exists>r. aggregate (Date 2024 1 3) example_tuples = Inr r"
    by (simp add: list_all_iff)
  have b: "\<not> is_Str (user_agent ?bad)" by (simp add: is_Str_def)
  have f: "findUrlQuery example_db ''abc'' \<noteq> []"
    by (simp add: findUrlQuery_def example_db_def)
  have c: "user_agent ?bad = column_value None" by (simp add: column_value_def)
  from t b have 1: "aggregate (Date 2024 1 3) [?bad] = Inl TypeError" by simp
  from t f obtain event where
    "url_analytics (fst (snd (redirect example_db False False (\<lambda>ip. None) ''abc'' None None None)))
       = url_analytics example_db @ [event]" "a_user_agent event = None"
    by blast
  then have 2: "a_user_agent (last (url_analytics
        (fst (snd (redirect example_db False False (\<lambda>ip. None) ''abc'' None None None))))) = None"
    by simp
  from t f c have 3: "getAliasReport example_db False (\<lambda>a. Some [?bad]) (Date 2024 1 3) ''abc''
      = Inl TypeError" by simp
  from s 0 aggregate_example b 1 f 2 3 show ?thesis by simp
qed

section \<open>Aliases that are not registered, aliases without events\<close>



section \<open>The dates of \<^verbatim>\<open>clicksByDate\<close>\<close>

lemma str_lt_append:
  "length x = length y \<Longrightarrow> str_lt (x @ s) (y @ t) = (str_lt x y \<or> (x = y \<and> str_lt s t))"
  by (induction x y rule: list_induct2) auto

lemma str_lt_same_length_irrefl: "\<not> str_lt x x"
  by (induction x) auto

lemma length_fixed_width: "length (fixed_width w n) = w"
  by (induction w arbitrary: n) simp_all

lemma digit_char_less:
  "a < 10 \<Longrightarrow> b < 10 \<Longrightarrow>
     ((of_char (char_of (48 + a :: nat)) :: nat) < of_char (char_of (48 + b :: nat))) = (a < b)"
  by simp

lemma digit_char_eq:
  "a < 10 \<Longrightarrow> b < 10 \<Longrightarrow> (char_of (48 + a :: nat) = char_of (48 + b :: nat)) = (a = b)"
  by (simp add: char_of_eq_iff take_bit_eq_mod)

lemma fixed_width_eq_iff:
  "n < 10 ^ w \<Longrightarrow> m < 10 ^ w \<Longrightarrow> (fixed_width w n = fixed_width w m) = (n = m)"
proof (induction w arbitrary: n m)
  case 0
  then show ?case by simp
next
  case (Suc w)
  then have "n div 10 < 10 ^ w" "m div 10 < 10 ^ w"
    by (simp_all add: less_mult_imp_div_less mult.commute)
  from Suc.IH [OF this] show ?case
    by (auto simp: length_fixed_width digit_char_eq) (metis div_mult_mod_eq)
qed

lemma lex_digits:
  "b < 10 \<Longrightarrow> d < 10 \<Longrightarrow> ((10 * a + b :: nat) < 10 * c + d) = (a < c \<or> (a = c \<and> b < d))"
  by arith

lemma lex_div_mod:
  "((n::nat) < m) = (n div 10 < m div 10 \<or> (n div 10 = m div 10 \<and> n mod 10 < m mod 10))"
proof -
  have "(10 * (n div 10) + n mod 10 < 10 * (m div 10) + m mod 10)
          = (n div 10 < m div 10 \<or> (n div 10 = m div 10 \<and> n mod 10 < m mod 10))"
    by (rule lex_digits) simp_all
  then show ?thesis by simp
qed

lemma fixed_width_lt_iff:
  "n < 10 ^ w \<Longrightarrow> m < 10 ^ w \<Longrightarrow> str_lt (fixed_width w n) (fixed_width w m) = (n < m)"
proof (induction w arbitrary: n m)
  case 0
  then show ?case by simp
next
  case (Suc w)
  then have b: "n div 10 < 10 ^ w" "m div 10 < 10 ^ w"
    by (simp_all add: less_mult_imp_div_less mult.commute)
  have "str_lt (fixed_width (Suc w) n) (fixed_width (Suc w) m)
          = (n div 10 < m div 10 \<or> (n div 10 = m div 10 \<and> n mod 10 < m mod 10))"
    by (simp add: str_lt_append length_fixed_width Suc.IH [OF b] fixed_width_eq_iff [OF b]
        digit_char_less)
  also have "\<dots> = (n < m)" by (rule lex_div_mod [symmetric])
  finally show ?case .
qed

lemma fixed_width_zero: "fixed_width w 0 = replicate w (CHR ''0'')"
proof (induction w)
  case 0
  then show ?case by simp
next
  case (Suc w)
  have "char_of (48 :: nat) = CHR ''0''" by (simp add: char_of_eq_iff)
  with Suc show ?case by (simp add: replicate_append_same)
qed

lemma zeroFill_fixed_width:
  "n < 10 ^ Suc w \<Longrightarrow> zeroFill n (Suc w) = fixed_width (Suc w) n"
proof (induction w arbitrary: n)
  case 0
  then have "dec n = [char_of (48 + n)]" by (subst dec.simps) simp
  with 0 show ?case by (simp add: zeroFill_def del: dec.simps)
next
  case (Suc w)
  show ?case
  proof (cases "n < 10")
    case True
    then have "dec n = [char_of (48 + n)]" by (subst dec.simps) simp
    with True show ?thesis
      by (simp add: zeroFill_def fixed_width_zero replicate_append_same del: dec.simps)
  next
    case False
    from Suc.prems have "n div 10 < 10 ^ Suc w"
      by (simp add: less_mult_imp_div_less mult.commute)
    from Suc.IH [OF this] have ih: "zeroFill (n div 10) (Suc w) = fixed_width (Suc w) (n div 10)" .
    have d: "dec n = dec (n div 10) @ [char_of (48 + n mod 10)]"
      using False by (subst dec.simps) (simp del: dec.simps)
    have "zeroFill n (Suc (Suc w)) = zeroFill (n div 10) (Suc w) @ [char_of (48 + n mod 10)]"
      by (simp add: zeroFill_def d del: dec.simps)
    then show ?thesis by (simp add: ih del: dec.simps)
  qed
qed

lemma zeroFill_4: "n < 10000 \<Longrightarrow> zeroFill n 4 = fixed_width (Suc 3) n"
proof -
  assume "n < 10000"
  then have "n < 10 ^ Suc 3" by simp
  then have "zeroFill n (Suc 3) = fixed_width (Suc 3) n" by (rule zeroFill_fixed_width)
  moreover have "(4::nat) = Suc 3" by simp
  ultimately show ?thesis by (simp only:)
qed

lemma zeroFill_2: "n < 100 \<Longrightarrow> zeroFill n 2 = fixed_width (Suc 1) n"
proof -
  assume "n < 100"
  then have "n < 10 ^ Suc 1" by simp
  then have "zeroFill n (Suc 1) = fixed_width (Suc 1) n" by (rule zeroFill_fixed_width)
  moreover have "(2::nat) = Suc 1" by simp
  ultimately show ?thesis by (simp only:)
qed

lemma str_lt_Cons_same: "str_lt (c # xs) (c # ys) = str_lt xs ys"
  by simp

lemma format_date_lt:
  assumes "fits_format a" and "fits_format b"
  shows "str_lt (format_date a) (format_date b) = date_lt a b"
proof -
  from assms have y: "year a < 10 ^ Suc 3" "year b < 10 ^ Suc 3"
    and m: "month a < 10 ^ Suc 1" "month b < 10 ^ Suc 1"
    and d: "day a < 10 ^ Suc 1" "day b < 10 ^ Suc 1"
    by (simp_all add: fits_format_def)
  have fa: "format_date a = fixed_width (Suc 3) (year a) @ CHR ''-'' #
              fixed_width (Suc 1) (month a) @ CHR ''-'' # fixed_width (Suc 1) (day a)"
    using assms(1) by (simp add: format_date_def fits_format_def zeroFill_4 zeroFill_2
        del: fixed_width.simps)
  have fb: "format_date b = fixed_width (Suc 3) (year b) @ CHR ''-'' #
              fixed_width (Suc 1) (month b) @ CHR ''-'' # fixed_width (Suc 1) (day b)"
    using assms(2) by (simp add: format_date_def fits_format_def zeroFill_4 zeroFill_2
        del: fixed_width.simps)
  have "str_lt (fixed_width (Suc 1) (day a)) (fixed_width (Suc 1) (day b)) = (day a < day b)"
    by (rule fixed_width_lt_iff [OF d])
  then have "str_lt (format_date a) (format_date b) =
      (year a < year b \<or> (year a = year b \<and>
         (month a < month b \<or> (month a = month b \<and> day a < day b))))"
    unfolding fa fb
    by (simp only: str_lt_append length_fixed_width str_lt_Cons_same
        fixed_width_lt_iff [OF y] fixed_width_eq_iff [OF y]
        fixed_width_lt_iff [OF m] fixed_width_eq_iff [OF m])
  then show ?thesis by (simp add: date_lt_def)
qed

lemma days_in_month_le: "days_in_month y m \<le> 31"
  by (simp add: days_in_month_def)

lemma valid_date_fits: "valid_date d \<Longrightarrow> fits_format d"
  using days_in_month_le [of "year d" "month d"] by (simp add: valid_date_def fits_format_def)

lemma prev_day_fits: "fits_format d \<Longrightarrow> fits_format (prev_day d)"
proof (cases d)
  case (Date y m dd)
  assume "fits_format d"
  with Date show ?thesis
    using days_in_month_le [of y "m - 1"] by (auto simp: fits_format_def)
qed

lemma subtract_days_fits: "fits_format d \<Longrightarrow> fits_format (subtract_days n d)"
  by (induction n) (simp_all add: subtract_days_def prev_day_fits)

lemma format_date_ge:
  assumes "valid_date today" and "valid_date c"
  shows "str_ge (format_date c) (format_date (subtract_days 7 today))
           = (\<not> date_lt c (subtract_days 7 today))"
  by (simp add: str_ge_def format_date_lt valid_date_fits assms subtract_days_fits)

lemma aggregate_clicksByDate:
  assumes "aggregate today tuples = Inr r"
  shows "(\<forall>e \<in> set (clicksByDate r).
            str_ge (date_key e) (format_date (subtract_days 7 today))
            \<and> clickCount e =
                sum_list (map total_clicks
                  (filter (\<lambda>t. format_date (click_date t) = date_key e) tuples)))
         \<and> date_key ` set (clicksByDate r) =
             {format_date (click_date t) | t.
                t \<in> set tuples
                \<and> str_ge (format_date (click_date t)) (format_date (subtract_days 7 today))}
         \<and> distinct (map date_key (clicksByDate r))
         \<and> (valid_date today \<and> (\<forall>t \<in> set tuples. valid_date (click_date t)) \<longrightarrow>
              (\<forall>t \<in> set tuples.
                 (format_date (click_date t) \<in> date_key ` set (clicksByDate r))
                   = (\<not> date_lt (click_date t) (subtract_days 7 today))))"
proof -
  let ?s = "format_date (subtract_days 7 today)"
  from assms obtain osTypeMap deviceTypeMap where
    r: "r = \<lparr>totalClicks = sum_total_clicks tuples, uniqueUsers = count_unique_users tuples,
          clicksByDate = clicksByDateArray today tuples,
          osType = bucket_array osTypeMap, deviceType = bucket_array deviceTypeMap\<rparr>"
    by (rule aggregate_InrE)
  have c: "clicksByDate r = clicksByDateArray today tuples" by (simp add: r)
  have 1: "\<forall>e \<in> set (clicksByDate r).
            str_ge (date_key e) ?s
            \<and> clickCount e =
                sum_list (map total_clicks
                  (filter (\<lambda>t. format_date (click_date t) = date_key e) tuples))"
    by (simp add: c clicksByDateArray_mem)
  have 2: "date_key ` set (clicksByDate r) =
             {format_date (click_date t) | t.
                t \<in> set tuples \<and> str_ge (format_date (click_date t)) ?s}" (is "?L = ?R")
  proof (rule set_eqI)
    fix k
    show "k \<in> ?L \<longleftrightarrow> k \<in> ?R"
    proof
      assume "k \<in> ?L"
      then obtain e where "e \<in> set (clicksByDateArray today tuples)" "k = date_key e"
        by (auto simp: c)
      then show "k \<in> ?R" by (auto simp: clicksByDateArray_mem)
    next
      assume "k \<in> ?R"
      then obtain t where t: "t \<in> set tuples" "k = format_date (click_date t)" "str_ge k ?s"
        by auto
      define e where "e = \<lparr>date_key = k, clickCount =
          sum_list (map total_clicks (filter (\<lambda>t. format_date (click_date t) = k) tuples))\<rparr>"
      have "e \<in> set (clicksByDateArray today tuples)"
        using t by (simp add: clicksByDateArray_mem e_def)
      moreover have "date_key e = k" by (simp add: e_def)
      ultimately show "k \<in> ?L" unfolding c by (metis imageI)
    qed
  qed
  have 3: "distinct (map date_key (clicksByDate r))"
    by (simp add: c clicksByDateArray_distinct)
  have 4: "valid_date today \<and> (\<forall>t \<in> set tuples. valid_date (click_date t)) \<longrightarrow>
              (\<forall>t \<in> set tuples.
                 (format_date (click_date t) \<in> date_key ` set (clicksByDate r))
                   = (\<not> date_lt (click_date t) (subtract_days 7 today)))"
  proof (intro impI ballI, elim conjE)
    fix t
    assume v: "valid_date today" "\<forall>t \<in> set tuples. valid_date (click_date t)"
      and t: "t \<in> set tuples"
    have "(format_date (click_date t) \<in> date_key ` set (clicksByDate r))
            = str_ge (format_date (click_date t)) ?s"
      unfolding 2 using t by auto
    also have "\<dots> = (\<not> date_lt (click_date t) (subtract_days 7 today))"
      using v t by (simp add: format_date_ge)
    finally show "(format_date (click_date t) \<in> date_key ` set (clicksByDate r))
                   = (\<not> date_lt (click_date t) (subtract_days 7 today))" .
  qed
  from 1 2 3 4 show ?thesis by blast
qed

lemma example_dates:
  "valid_date (Date 2024 1 3)" "list_all (\<lambda>t. valid_date (click_date t)) example_tuples"
  "subtract_days 7 (Date 2024 1 3) = Date 2023 12 27"
  by (simp_all add: valid_date_def example_tuples_def days_in_month_def is_leap_def subtract_days_7)

section \<open>The fields of the report of an alias\<close>

lemma getAliasReport_registered:
  "\<not> check_err \<Longrightarrow> findUrlQuery d a \<noteq> [] \<Longrightarrow> queryGroupedEvents a = Some tuples \<Longrightarrow>
     getAliasReport d check_err queryGroupedEvents today a = aggregate today tuples"
  by (simp add: getAliasReport_def)

lemma getAliasReport_Inr_iff:
  "getAliasReport d check_err queryGroupedEvents today a = Inr r \<longleftrightarrow>
     \<not> check_err \<and> findUrlQuery d a \<noteq> []
     \<and> (\<exists>tuples. queryGroupedEvents a = Some tuples \<and> aggregate today tuples = Inr r)"
  by (cases "queryGroupedEvents a") (simp_all add: getAliasReport_def)

lemma getAliasReport_Inr_aggregate:
  assumes "getAliasReport d check_err queryGroupedEvents today a = Inr r"
    and "queryGroupedEvents a = Some tuples"
  shows "aggregate today tuples = Inr r"
  using assms by (simp add: getAliasReport_Inr_iff)

lemma findUrlQuery_example: "findUrlQuery example_db ''abc'' \<noteq> []"
  by (simp add: findUrlQuery_def example_db_def)

lemma getAliasReport_example:
  "getAliasReport example_db False (\<lambda>a. Some example_tuples) (Date 2024 1 3) ''abc''
     = Inr example_report"
proof -
  have "getAliasReport example_db False (\<lambda>a. Some example_tuples) (Date 2024 1 3) ''abc''
     = aggregate (Date 2024 1 3) example_tuples"
    by (rule getAliasReport_registered) (simp_all add: findUrlQuery_example)
  then show ?thesis by (simp only: aggregate_example)
qed

text \<open>
  C5: in the report that \<^verbatim>\<open>GET /analytics/:alias\<close> answers with, the \<^verbatim>\<open>uniqueClicks\<close> of the
  \<^verbatim>\<open>osType\<close> entries add up to \<^verbatim>\<open>totalClicks\<close>, which is the sum of \<^verbatim>\<open>total_clicks\<close> over
  all rows the analytics query returned for the alias.
\<close>

theorem osType_clicks_partition_totalClicks:
  assumes "getAliasReport d check_err queryGroupedEvents today a = Inr r"
    and "queryGroupedEvents a = Some tuples"
  shows "sum_list (map uniqueClicks (osType r)) = totalClicks r
         \<and> totalClicks r = sum_list (map total_clicks tuples)"
proof -
  from assms have "aggregate today tuples = Inr r"
    by (rule getAliasReport_Inr_aggregate)
  then show ?thesis by (rule aggregate_osType_clicks)
qed

theorem osType_clicks_partition_totalClicks_witness:
  "getAliasReport example_db False (\<lambda>a. Some example_tuples) (Date 2024 1 3) ''abc''
     = Inr example_report
   \<and> sum_list (map uniqueClicks (osType example_report)) = totalClicks example_report
   \<and> totalClicks example_report = sum_list (map total_clicks example_tuples)
   \<and> totalClicks example_report = 10"
proof -
  have "(\<lambda>a. Some example_tuples) ''abc'' = Some example_tuples" by simp
  from osType_clicks_partition_totalClicks [OF getAliasReport_example this]
  have "sum_list (map uniqueClicks (osType example_report)) = totalClicks example_report
         \<and> totalClicks example_report = sum_list (map total_clicks example_tuples)" .
  moreover have "totalClicks example_report = 10" by (simp add: example_report_def)
  ultimately show ?thesis using getAliasReport_example by simp
qed

text \<open>
  C1: in the report that \<^verbatim>\<open>GET /analytics/:alias\<close> answers with, \<^verbatim>\<open>uniqueUsers\<close> is the
  number of distinct values of the \<^verbatim>\<open>ip_address\<close> property over the rows the analytics
  query returned for the alias, one value per row, whatever the rows' own
  \<^verbatim>\<open>unique_users\<close> counts are; the \<^verbatim>\<open>uniqueUsers\<close> of an \<^verbatim>\<open>osType\<close> or \<^verbatim>\<open>deviceType\<close> entry is
  the number of distinct \<^verbatim>\<open>ip_address\<close> values over the rows classified into that entry.
  When no row has the property (the statement selects no such column), the value is
  \<^verbatim>\<open>undefined\<close> on every row and \<^verbatim>\<open>uniqueUsers\<close> is 1 as soon as there is a row.
\<close>

theorem uniqueUsers_counts_row_level_addresses:
  assumes "getAliasReport d check_err queryGroupedEvents today a = Inr r"
    and "queryGroupedEvents a = Some tuples"
  shows "uniqueUsers r = card (ip_address ` set tuples)
         \<and> (\<forall>b \<in> set (osType r).
               bucketUsers b = card (ip_address ` {t \<in> set tuples. bucket_of osName_of t = bucketName b}))
         \<and> (\<forall>b \<in> set (deviceType r).
               bucketUsers b = card (ip_address ` {t \<in> set tuples. bucket_of deviceName_of t = bucketName b}))
         \<and> ((\<forall>t \<in> set tuples. ip_address t = Undefined) \<longrightarrow>
               uniqueUsers r = (if tuples = [] then 0 else 1))"
proof -
  note g = getAliasReport_Inr_aggregate [OF assms]
  note a = aggregate_uniqueUsers [OF g]
  have b: "(\<forall>t \<in> set tuples. ip_address t = Undefined) \<longrightarrow>
               uniqueUsers r = (if tuples = [] then 0 else 1)"
  proof
    assume "\<forall>t \<in> set tuples. ip_address t = Undefined"
    then show "uniqueUsers r = (if tuples = [] then 0 else 1)"
      by (rule uniqueUsers_without_ip_address_column [OF g])
  qed
  show ?thesis
    by (rule conjI [OF a [THEN conjunct1]
          conjI [OF a [THEN conjunct2, THEN conjunct1]
            conjI [OF a [THEN conjunct2, THEN conjunct2] b]]])
qed

theorem uniqueUsers_counts_row_level_addresses_witness:
  "getAliasReport example_db False (\<lambda>a. Some example_tuples) (Date 2024 1 3) ''abc''
     = Inr example_report
   \<and> uniqueUsers example_report = card (ip_address ` set example_tuples)
   \<and> uniqueUsers example_report = 3
   \<and> sum_list (map unique_users example_tuples) = 7
   \<and> list_all (\<lambda>b. bucketUsers b =
          card (ip_address ` {t \<in> set example_tuples. bucket_of osName_of t = bucketName b}))
        (osType example_report)
   \<and> list_all (\<lambda>b. bucketUsers b =
          card (ip_address ` {t \<in> set example_tuples. bucket_of deviceName_of t = bucketName b}))
        (deviceType example_report)
   \<and> (\<exists>r. getAliasReport example_db False
             (\<lambda>a. Some (map (\<lambda>t. t\<lparr>ip_address := Undefined\<rparr>) example_tuples))
             (Date 2024 1 3) ''abc'' = Inr r
           \<and> uniqueUsers r = 1)"
proof -
  have q: "(\<lambda>a. Some example_tuples) ''abc'' = Some example_tuples" by simp
  note t = uniqueUsers_counts_row_level_addresses [OF getAliasReport_example q]
  have 1: "uniqueUsers example_report = 3" by (simp add: example_report_def)
  have 2: "sum_list (map unique_users example_tuples) = 7" by (simp add: example_tuples_def)
  let ?rows = "map (\<lambda>t. t\<lparr>ip_address := Undefined\<rparr>) example_tuples"
  have "\<forall>t \<in> set ?rows. is_Str (user_agent t)"
    by (simp add: example_tuples_def is_Str_def)
  from aggregate_total [OF this] obtain r where
    r: "aggregate (Date 2024 1 3) ?rows = Inr r" by blast
  have q': "(\<lambda>a. Some ?rows) ''abc'' = Some ?rows" by simp
  have f: "\<not> False" by simp
  from getAliasReport_registered [OF f findUrlQuery_example q', of "Date 2024 1 3"] r
  have g: "getAliasReport example_db False (\<lambda>a. Some ?rows) (Date 2024 1 3) ''abc'' = Inr r"
    by simp
  have u: "\<forall>t \<in> set ?rows. ip_address t = Undefined" by simp
  have n: "?rows \<noteq> []" by (simp add: example_tuples_def)
  note t' = uniqueUsers_counts_row_level_addresses
    [OF g q', THEN conjunct2, THEN conjunct2, THEN conjunct2, rule_format]
  from t' [OF u [rule_format]] n have "uniqueUsers r = 1" by (simp only: if_False)
  with g have 3: "\<exists>r. getAliasReport example_db False (\<lambda>a. Some ?rows) (Date 2024 1 3) ''abc'' = Inr r
           \<and> uniqueUsers r = 1" by blast
  have 4: "uniqueUsers example_report = card (ip_address ` set example_tuples)"
    by (rule t [THEN conjunct1])
  have 5: "list_all (\<lambda>b. bucketUsers b =
          card (ip_address ` {t \<in> set example_tuples. bucket_of osName_of t = bucketName b}))
        (osType example_report)"
    unfolding list_all_iff by (rule t [THEN conjunct2, THEN conjunct1])
  have 6: "list_all (\<lambda>b. bucketUsers b =
          card (ip_address ` {t \<in> set example_tuples. bucket_of deviceName_of t = bucketName b}))
        (deviceType example_report)"
    unfolding list_all_iff by (rule t [THEN conjunct2, THEN conjunct2, THEN conjunct1])
  show ?thesis
    by (intro conjI) (rule getAliasReport_example 1 2 3 4 5 6)+
qed

text \<open>
  C4: in the report that \<^verbatim>\<open>GET /analytics/:alias\<close> answers with, \<^verbatim>\<open>clicksByDate\<close> has one
  entry per formatted date of a row (of those the analytics query returned for the
  alias) that is not below the formatted date of seven days before the day of the
  computation, in the order of strings; the bound is inclusive and there is no upper
  bound. The \<^verbatim>\<open>clickCount\<close> of an entry is the sum of \<^verbatim>\<open>total_clicks\<close> over the rows of its
  date. For dates of the calendar with years of at most four digits the order of the
  strings is the order of the calendar: a row's date has an entry exactly when it is not
  earlier than seven days before the day of the computation.
\<close>

theorem clicksByDate_from_sevenDaysAgo:
  assumes "getAliasReport d check_err queryGroupedEvents today a = Inr r"
    and "queryGroupedEvents a = Some tuples"
  shows "(\<forall>e \<in> set (clicksByDate r).
            str_ge (date_key e) (format_date (subtract_days 7 today))
            \<and> clickCount e =
                sum_list (map total_clicks
                  (filter (\<lambda>t. format_date (click_date t) = date_key e) tuples)))
         \<and> date_key ` set (clicksByDate r) =
             {format_date (click_date t) | t.
                t \<in> set tuples
                \<and> str_ge (format_date (click_date t)) (format_date (subtract_days 7 today))}
         \<and> distinct (map date_key (clicksByDate r))
         \<and> (valid_date today \<and> (\<forall>t \<in> set tuples. valid_date (click_date t)) \<longrightarrow>
              (\<forall>t \<in> set tuples.
                 (format_date (click_date t) \<in> date_key ` set (clicksByDate r))
                   = (\<not> date_lt (click_date t) (subtract_days 7 today))))"
proof -
  from assms have "aggregate today tuples = Inr r"
    by (rule getAliasReport_Inr_aggregate)
  then show ?thesis by (rule aggregate_clicksByDate)
qed

theorem clicksByDate_from_sevenDaysAgo_witness:
  "getAliasReport example_db False (\<lambda>a. Some example_tuples) (Date 2024 1 3) ''abc''
     = Inr example_report
   \<and> valid_date (Date 2024 1 3)
   \<and> list_all (\<lambda>t. valid_date (click_date t)) example_tuples
   \<and> subtract_days 7 (Date 2024 1 3) = Date 2023 12 27
   \<and> clicksByDate example_report =
       [\<lparr>date_key = ''2024-01-01'', clickCount = 5\<rparr>, \<lparr>date_key = ''2024-02-01'', clickCount = 1\<rparr>]
   \<and> list_all (\<lambda>e. str_ge (date_key e) (format_date (Date 2023 12 27))) (clicksByDate example_report)
   \<and> list_all (\<lambda>t. (format_date (click_date t) \<in> date_key ` set (clicksByDate example_report))
                   = (\<not> date_lt (click_date t) (Date 2023 12 27))) example_tuples
   \<and> date_lt (click_date (example_tuples ! 2)) (Date 2023 12 27)
   \<and> date_lt (Date 2024 1 3) (click_date (example_tuples ! 3))"
proof -
  have q: "(\<lambda>a. Some example_tuples) ''abc'' = Some example_tuples" by simp
  note t = clicksByDate_from_sevenDaysAgo [OF getAliasReport_example q, unfolded example_dates(3)]
  have a: "list_all (\<lambda>e. str_ge (date_key e) (format_date (Date 2023 12 27))) (clicksByDate example_report)"
    using t unfolding list_all_iff by blast
  have b: "list_all (\<lambda>t. (format_date (click_date t) \<in> date_key ` set (clicksByDate example_report))
                   = (\<not> date_lt (click_date t) (Date 2023 12 27))) example_tuples"
    using t example_dates(1,2) unfolding list_all_iff by blast
  have c: "date_lt (click_date (example_tuples ! 2)) (Date 2023 12 27)"
    "date_lt (Date 2024 1 3) (click_date (example_tuples ! 3))"
    by (simp_all add: example_tuples_def date_lt_def)
  have d: "clicksByDate example_report =
       [\<lparr>date_key = ''2024-01-01'', clickCount = 5\<rparr>, \<lparr>date_key = ''2024-02-01'', clickCount = 1\<rparr>]"
    by (simp add: example_report_def)
  from getAliasReport_example example_dates a b c d show ?thesis by simp
qed

section \<open>A redirect whose analytics insert fails\<close>

text \<open>
  C8: the response of a redirect does not depend on whether the insert of the analytics
  event fails: for an alias that resolves, the response is the redirect to the
  \<^verbatim>\<open>long_url\<close> of the first matching row in both cases; when the insert fails, one line is
  written to the error log and no event is stored.
\<close>

theorem redirect_survives_analytics_failure:
  "fst (redirect d find_err True lookup a userAgent req_ip remoteAddress)
     = fst (redirect d find_err False lookup a userAgent req_ip remoteAddress)
   \<and> (\<not> find_err \<and> findUrlQuery d a = row # rest \<longrightarrow>
        redirect d find_err True lookup a userAgent req_ip remoteAddress
          = (Inr (long_url row), d, [''Error logging analytics:''])
        \<and> fst (redirect d find_err False lookup a userAgent req_ip remoteAddress)
          = Inr (long_url row))"
proof (intro conjI impI)
  show "fst (redirect d find_err True lookup a userAgent req_ip remoteAddress)
     = fst (redirect d find_err False lookup a userAgent req_ip remoteAddress)"
  proof (cases "findUrlQuery d a")
    case Nil
    then show ?thesis by (simp add: redirect_def)
  next
    case (Cons r rs)
    then show ?thesis by (simp add: redirect_def Let_def)
  qed
next
  assume "\<not> find_err \<and> findUrlQuery d a = row # rest"
  then show "redirect d find_err True lookup a userAgent req_ip remoteAddress
          = (Inr (long_url row), d, [''Error logging analytics:''])"
    by (simp add: redirect_def Let_def)
next
  assume "\<not> find_err \<and> findUrlQuery d a = row # rest"
  then show "fst (redirect d find_err False lookup a userAgent req_ip remoteAddress)
          = Inr (long_url row)"
    by (simp add: redirect_def Let_def)
qed

theorem redirect_survives_analytics_failure_witness:
  "findUrlQuery example_db ''abc'' = [hd (urls example_db)]
   \<and> redirect example_db False True (\<lambda>ip. None) ''abc'' (Some ''Mozilla'') None None
       = (Inr ''http://x.com'', example_db, [''Error logging analytics:''])
   \<and> fst (redirect example_db False False (\<lambda>ip. None) ''abc'' (Some ''Mozilla'') None None)
       = Inr ''http://x.com''"
proof -
  have f: "findUrlQuery example_db ''abc'' = hd (urls example_db) # []"
    by (simp add: findUrlQuery_def example_db_def)
  have l: "long_url (hd (urls example_db)) = ''http://x.com''"
    by (simp add: example_db_def)
  from redirect_survives_analytics_failure
    [of example_db False "\<lambda>ip. None" "''abc''" "Some ''Mozilla''" None None "hd (urls example_db)" "[]"]
    f l
  show ?thesis by simp
qed

section \<open>Custom aliases of \<^verbatim>\<open>POST /shorten\<close>\<close>

lemma checkAliasQuery_Nil:
  "checkAliasQuery d customAlias \<noteq> [] \<longleftrightarrow>
     (\<exists>a. customAlias = Some a \<and> Some a \<in> custom_alias ` set (urls d))"
  by (cases customAlias) (force simp: checkAliasQuery_def filter_empty_conv image_iff)+

lemma create_AliasConflict:
  "fst (create d check_err insert_err generated origin longUrl customAlias topic_name) = Inl AliasConflict
     \<longleftrightarrow> truthy longUrl \<and> \<not> check_err \<and> checkAliasQuery d customAlias \<noteq> []"
  by (simp add: create_def Let_def)

lemma create_Inr:
  assumes "create d check_err insert_err generated origin longUrl customAlias topic_name = (Inr x, d')"
  shows "truthy longUrl \<and> \<not> check_err \<and> checkAliasQuery d customAlias = [] \<and> \<not> insert_err
         \<and> \<not> violates_unique d
               \<lparr>long_url = the longUrl,
                short_url = (if truthy customAlias then the customAlias else generated),
                custom_alias = (if truthy customAlias then customAlias else None),
                topic = (if truthy topic_name then topic_name else None)\<rparr>
         \<and> d' = d\<lparr>urls := urls d @
               [\<lparr>long_url = the longUrl,
                 short_url = (if truthy customAlias then the customAlias else generated),
                 custom_alias = (if truthy customAlias then customAlias else None),
                 topic = (if truthy topic_name then topic_name else None)\<rparr>]\<rparr>"
  using assms by (simp add: create_def Let_def split: if_splits)

lemma create_not_Inr:
  assumes "create d check_err insert_err generated origin longUrl customAlias topic_name = (Inl e, d')"
  shows "d' = d"
  using assms by (simp add: create_def Let_def split: if_splits)

text \<open>What a request with a \<^verbatim>\<open>longUrl\<close> whose lookup is answered gets.\<close>

lemma create_with_longUrl:
  assumes "truthy longUrl" and "\<not> check_err"
  shows "(fst (create d check_err insert_err generated origin longUrl customAlias topic_name)
            = Inl AliasConflict
          \<longleftrightarrow> (\<exists>a. customAlias = Some a \<and> Some a \<in> custom_alias ` set (urls d)))
         \<and> (\<forall>a. customAlias = Some a \<and> a \<noteq> [] \<and> a \<in> short_url ` set (urls d)
                 \<and> Some a \<notin> custom_alias ` set (urls d)
               \<longrightarrow> fst (create d check_err insert_err generated origin longUrl customAlias
                          topic_name) = Inl StorageError)
         \<and> (\<forall>a x. customAlias = Some a \<and> a \<noteq> [] \<and> truthy longUrl2
                 \<and> fst (create d check_err insert_err generated origin longUrl customAlias
                          topic_name) = Inr x
               \<longrightarrow> fst (create
                          (snd (create d check_err insert_err generated origin longUrl
                                  customAlias topic_name))
                          False insert_err2 generated2 origin2 longUrl2 customAlias topic_name2)
                      = Inl AliasConflict)"
proof (intro conjI allI impI)
  show "fst (create d check_err insert_err generated origin longUrl customAlias topic_name)
            = Inl AliasConflict
          \<longleftrightarrow> (\<exists>a. customAlias = Some a \<and> Some a \<in> custom_alias ` set (urls d))"
    using assms by (simp add: create_AliasConflict checkAliasQuery_Nil)
next
  fix a
  assume h: "customAlias = Some a \<and> a \<noteq> [] \<and> a \<in> short_url ` set (urls d)
                 \<and> Some a \<notin> custom_alias ` set (urls d)"
  then have "checkAliasQuery d customAlias = []"
    using checkAliasQuery_Nil [of d customAlias] by auto
  with h assms show "fst (create d check_err insert_err generated origin longUrl customAlias
                          topic_name) = Inl StorageError"
    by (auto simp: create_def Let_def truthy_def violates_unique_def)
next
  fix a x
  assume h: "customAlias = Some a \<and> a \<noteq> [] \<and> truthy longUrl2
                 \<and> fst (create d check_err insert_err generated origin longUrl customAlias
                          topic_name) = Inr x"
  obtain d' where c: "create d check_err insert_err generated origin longUrl customAlias topic_name
      = (Inr x, d')"
    using h by (cases "create d check_err insert_err generated origin longUrl customAlias topic_name") auto
  from create_Inr [OF c] h have "Some a \<in> custom_alias ` set (urls d')"
    by (simp add: truthy_def)
  then have "checkAliasQuery d' customAlias \<noteq> []"
    using h by (simp add: checkAliasQuery_Nil)
  moreover from h have "truthy longUrl2" by simp
  ultimately show "fst (create
                          (snd (create d check_err insert_err generated origin longUrl
                                  customAlias topic_name))
                          False insert_err2 generated2 origin2 longUrl2 customAlias topic_name2)
                      = Inl AliasConflict"
    unfolding c snd_conv by (simp add: create_AliasConflict)
qed

lemma create_without_longUrl:
  "\<not> truthy longUrl \<Longrightarrow>
     create d check_err insert_err generated origin longUrl customAlias topic_name
       = (Inl ValidationError, d)"
  by (simp add: create_def)

lemma create_check_err:
  "truthy longUrl \<Longrightarrow> check_err \<Longrightarrow>
     create d check_err insert_err generated origin longUrl customAlias topic_name
       = (Inl StorageError, d)"
  by (simp add: create_def Let_def)

text \<open>
  C7, as the code has it: the response is \<open>AliasConflict\<close> exactly when the request has a
  non-empty \<^verbatim>\<open>longUrl\<close>, the lookup of the alias is answered, and \<^verbatim>\<open>customAlias\<close> is given
  and is the \<^verbatim>\<open>custom_alias\<close> of a stored row. Every request whose \<^verbatim>\<open>longUrl\<close> is missing
  or empty is answered with \<open>ValidationError\<close> before any lookup, whatever its
  \<^verbatim>\<open>customAlias\<close>, and every request with a \<^verbatim>\<open>longUrl\<close> whose lookup fails with
  \<open>StorageError\<close>; neither changes the table. Stored \<^verbatim>\<open>short_url\<close> values are not looked
  at: a non-empty \<^verbatim>\<open>customAlias\<close> that is only the \<^verbatim>\<open>short_url\<close> of a stored row passes the
  check and is refused by the insert, a \<open>StorageError\<close>. After a successful request with a
  non-empty \<^verbatim>\<open>customAlias\<close>, a second request with a \<^verbatim>\<open>longUrl\<close> and the same
  \<^verbatim>\<open>customAlias\<close>, whose lookup is answered, is answered with \<open>AliasConflict\<close>.
\<close>

theorem create_AliasConflict_iff_custom_alias_taken:
  "(fst (create d check_err insert_err generated origin longUrl customAlias topic_name)
      = Inl AliasConflict
    \<longleftrightarrow> truthy longUrl \<and> \<not> check_err
        \<and> (\<exists>a. customAlias = Some a \<and> Some a \<in> custom_alias ` set (urls d)))
   \<and> (\<not> truthy longUrl \<longrightarrow>
        create d check_err insert_err generated origin longUrl customAlias topic_name
          = (Inl ValidationError, d))
   \<and> (truthy longUrl \<and> check_err \<longrightarrow>
        create d check_err insert_err generated origin longUrl customAlias topic_name
          = (Inl StorageError, d))
   \<and> (truthy longUrl \<and> \<not> check_err \<longrightarrow>
        (\<forall>a. customAlias = Some a \<and> a \<noteq> [] \<and> a \<in> short_url ` set (urls d)
                 \<and> Some a \<notin> custom_alias ` set (urls d)
               \<longrightarrow> fst (create d check_err insert_err generated origin longUrl customAlias
                          topic_name) = Inl StorageError)
        \<and> (\<forall>a x. customAlias = Some a \<and> a \<noteq> [] \<and> truthy longUrl2
                 \<and> fst (create d check_err insert_err generated origin longUrl customAlias
                          topic_name) = Inr x
               \<longrightarrow> fst (create
                          (snd (create d check_err insert_err generated origin longUrl
                                  customAlias topic_name))
                          False insert_err2 generated2 origin2 longUrl2 customAlias topic_name2)
                      = Inl AliasConflict))"
proof (intro conjI)
  show "fst (create d check_err insert_err generated origin longUrl customAlias topic_name)
      = Inl AliasConflict
    \<longleftrightarrow> truthy longUrl \<and> \<not> check_err
        \<and> (\<exists>a. customAlias = Some a \<and> Some a \<in> custom_alias ` set (urls d))"
    by (simp only: create_AliasConflict checkAliasQuery_Nil)
next
  show "\<not> truthy longUrl \<longrightarrow>
        create d check_err insert_err generated origin longUrl customAlias topic_name
          = (Inl ValidationError, d)"
    by (rule impI) (rule create_without_longUrl)
next
  show "truthy longUrl \<and> check_err \<longrightarrow>
        create d check_err insert_err generated origin longUrl customAlias topic_name
          = (Inl StorageError, d)"
  proof
    assume "truthy longUrl \<and> check_err"
    then have "truthy longUrl" "check_err" by simp_all
    then show "create d check_err insert_err generated origin longUrl customAlias topic_name
          = (Inl StorageError, d)"
      by (rule create_check_err)
  qed
next
  show "truthy longUrl \<and> \<not> check_err \<longrightarrow>
        (\<forall>a. customAlias = Some a \<and> a \<noteq> [] \<and> a \<in> short_url ` set (urls d)
                 \<and> Some a \<notin> custom_alias ` set (urls d)
               \<longrightarrow> fst (create d check_err insert_err generated origin longUrl customAlias
                          topic_name) = Inl StorageError)
        \<and> (\<forall>a x. customAlias = Some a \<and> a \<noteq> [] \<and> truthy longUrl2
                 \<and> fst (create d check_err insert_err generated origin longUrl customAlias
                          topic_name) = Inr x
               \<longrightarrow> fst (create
                          (snd (create d check_err insert_err generated origin longUrl
                                  customAlias topic_name))
                          False insert_err2 generated2 origin2 longUrl2 customAlias topic_name2)
                      = Inl AliasConflict)"
  proof
    assume "truthy longUrl \<and> \<not> check_err"
    then have h: "truthy longUrl" "\<not> check_err" by simp_all
    show "(\<forall>a. customAlias = Some a \<and> a \<noteq> [] \<and> a \<in> short_url ` set (urls d)
                 \<and> Some a \<notin> custom_alias ` set (urls d)
               \<longrightarrow> fst (create d check_err insert_err generated origin longUrl customAlias
                          topic_name) = Inl StorageError)
        \<and> (\<forall>a x. customAlias = Some a \<and> a \<noteq> [] \<and> truthy longUrl2
                 \<and> fst (create d check_err insert_err generated origin longUrl customAlias
                          topic_name) = Inr x
               \<longrightarrow> fst (create
                          (snd (create d check_err insert_err generated origin longUrl
                                  customAlias topic_name))
                          False insert_err2 generated2 origin2 longUrl2 customAlias topic_name2)
                      = Inl AliasConflict)"
      by (rule create_with_longUrl [OF h, THEN conjunct2])
  qed
qed

theorem create_AliasConflict_counterexample:
  "custom_alias (hd (urls example_db)) = Some ''abc''
   \<and> fst (create example_db False False ''tok'' ''http://host'' None (Some ''abc'') None)
       = Inl ValidationError
   \<and> fst (create example_db False False ''tok'' ''http://host'' None (Some ''abc'') None)
       \<noteq> Inl AliasConflict
   \<and> fst (create example_db False False ''tok'' ''http://host'' (Some []) (Some ''abc'') None)
       = Inl ValidationError
   \<and> fst (create example_db True False ''tok'' ''http://host'' (Some ''http://y.com'')
            (Some ''abc'') None) = Inl StorageError
   \<and> fst (create example_db True False ''tok'' ''http://host'' (Some ''http://y.com'')
            (Some ''abc'') None) \<noteq> Inl AliasConflict"
  by (simp add: create_def truthy_def example_db_def)

theorem create_AliasConflict_iff_custom_alias_taken_witness:
  "\<not> truthy None
   \<and> create example_db False False ''tok'' ''http://host'' None (Some ''abc'') None
       = (Inl ValidationError, example_db)
   \<and> truthy (Some ''http://y.com'')
   \<and> create example_db True False ''tok'' ''http://host'' (Some ''http://y.com'')
        (Some ''abc'') None = (Inl StorageError, example_db)
   \<and> fst (create example_db False False ''tok'' ''http://host'' (Some ''http://y.com'')
            (Some ''abc'') None) = Inl AliasConflict
   \<and> fst (create \<lparr>urls = [], url_analytics = []\<rparr> False False ''tok'' ''http://host''
            (Some ''http://x.com'') (Some ''abc'') (Some ''news'')) = Inr ''http://host/abc''
   \<and> fst (create
            (snd (create \<lparr>urls = [], url_analytics = []\<rparr> False False ''tok'' ''http://host''
                    (Some ''http://x.com'') (Some ''abc'') (Some ''news'')))
            False False ''tok2'' ''http://host'' (Some ''http://y.com'') (Some ''abc'') None)
       = Inl AliasConflict
   \<and> fst (create
            \<lparr>urls = [\<lparr>long_url = ''http://x.com'', short_url = ''abc'', custom_alias = None,
                      topic = None\<rparr>],
             url_analytics = []\<rparr>
            False False ''tok'' ''http://host'' (Some ''http://y.com'') (Some ''abc'') None)
       = Inl StorageError"
proof -
  let ?empty = "\<lparr>urls = [], url_analytics = []\<rparr>"
  let ?token_db = "\<lparr>urls = [\<lparr>long_url = ''http://x.com'', short_url = ''abc'',
                              custom_alias = None, topic = None\<rparr>],
                    url_analytics = []\<rparr>"
  have n: "\<not> truthy None" by (simp add: truthy_def)
  have t: "truthy (Some ''http://y.com'')" "truthy (Some ''http://x.com'')"
    by (simp_all add: truthy_def)
  have nf: "\<not> False" by simp
  have 1: "create example_db False False ''tok'' ''http://host'' None (Some ''abc'') None
       = (Inl ValidationError, example_db)"
    by (rule create_AliasConflict_iff_custom_alias_taken
        [THEN conjunct2, THEN conjunct1, rule_format, OF n])
  have "truthy (Some ''http://y.com'') \<and> True" using t(1) by simp
  then have 2: "create example_db True False ''tok'' ''http://host'' (Some ''http://y.com'')
        (Some ''abc'') None = (Inl StorageError, example_db)"
    by (rule create_AliasConflict_iff_custom_alias_taken
        [THEN conjunct2, THEN conjunct2, THEN conjunct1, rule_format])
  have "truthy (Some ''http://y.com'') \<and> \<not> False
        \<and> (\<exists>a. Some ''abc'' = Some a \<and> Some a \<in> custom_alias ` set (urls example_db))"
    using t(1) by (simp add: example_db_def)
  then have 3: "fst (create example_db False False ''tok'' ''http://host'' (Some ''http://y.com'')
            (Some ''abc'') None) = Inl AliasConflict"
    by (rule create_AliasConflict_iff_custom_alias_taken [THEN conjunct1, THEN iffD2])
  have 4: "fst (create ?empty False False ''tok'' ''http://host''
            (Some ''http://x.com'') (Some ''abc'') (Some ''news'')) = Inr ''http://host/abc''"
    by (simp add: create_def truthy_def checkAliasQuery_def violates_unique_def Let_def)
  have tx: "truthy (Some ''http://x.com'') \<and> \<not> False" using t(2) by simp
  note twice = create_AliasConflict_iff_custom_alias_taken
      [of ?empty False False "''tok''" "''http://host''" "Some ''http://x.com''" "Some ''abc''"
          "Some ''news''" "Some ''http://y.com''" False "''tok2''" "''http://host''" None,
       THEN conjunct2, THEN conjunct2, THEN conjunct2, rule_format, OF tx,
       THEN conjunct2, rule_format, of "''abc''" "''http://host/abc''"]
  have "Some ''abc'' = Some ''abc'' \<and> ''abc'' \<noteq> [] \<and> truthy (Some ''http://y.com'')
        \<and> fst (create ?empty False False ''tok'' ''http://host''
            (Some ''http://x.com'') (Some ''abc'') (Some ''news'')) = Inr ''http://host/abc''"
    using t(1) 4 by simp
  then have 5: "fst (create
            (snd (create ?empty False False ''tok'' ''http://host''
                    (Some ''http://x.com'') (Some ''abc'') (Some ''news'')))
            False False ''tok2'' ''http://host'' (Some ''http://y.com'') (Some ''abc'') None)
       = Inl AliasConflict"
    by (rule twice)
  have ty: "truthy (Some ''http://y.com'') \<and> \<not> False" using t(1) by simp
  note token = create_AliasConflict_iff_custom_alias_taken
      [of ?token_db False False "''tok''" "''http://host''" "Some ''http://y.com''" "Some ''abc''"
          None,
       THEN conjunct2, THEN conjunct2, THEN conjunct2, rule_format, OF ty,
       THEN conjunct1, rule_format, of "''abc''"]
  have "Some ''abc'' = Some ''abc'' \<and> ''abc'' \<noteq> []
          \<and> ''abc'' \<in> short_url ` set (urls ?token_db)
          \<and> Some ''abc'' \<notin> custom_alias ` set (urls ?token_db)"
    by simp
  then have 6: "fst (create ?token_db False False ''tok'' ''http://host'' (Some ''http://y.com'')
            (Some ''abc'') None) = Inl StorageError"
    by (rule token)
  show ?thesis
    by (intro conjI) (rule n 1 t(1) 2 3 4 5 6)+
qed

section \<open>The stored row of a custom alias\<close>

lemma filter_distinct_key:
  "distinct (map f xs) \<Longrightarrow> x \<in> set xs \<Longrightarrow> filter (\<lambda>y. f y = f x) xs = [x]"
proof (induction xs)
  case Nil
  then show ?case by simp
next
  case (Cons y ys)
  show ?case
  proof (cases "y = x")
    case True
    with Cons.prems(1) have "f x \<notin> f ` set ys" by simp
    then have "filter (\<lambda>z. f z = f x) ys = []"
      unfolding filter_empty_conv by (metis imageI)
    with True show ?thesis by simp
  next
    case False
    with Cons.prems have "x \<in> set ys" "f y \<noteq> f x" by auto
    with Cons show ?thesis by simp
  qed
qed

lemma resolve_same_row:
  assumes inv: "\<forall>row \<in> set rows. \<forall>c. custom_alias row = Some c \<longrightarrow> short_url row = c"
    and uniq: "distinct (map short_url rows)"
    and row: "row \<in> set rows" "custom_alias row = Some c"
  shows "filter (\<lambda>r. short_url r = c) rows = [row]"
    and "filter (\<lambda>r. custom_alias r = Some c) rows = [row]"
    and "take 1 (filter (\<lambda>r. short_url r = c \<or> custom_alias r = Some c) rows) = [row]"
proof -
  from inv row have s: "short_url row = c" by blast
  show 1: "filter (\<lambda>r. short_url r = c) rows = [row]"
    using filter_distinct_key [OF uniq row(1)] by (simp add: s)
  have e: "\<forall>r \<in> set rows. (custom_alias r = Some c) = (short_url r = c)"
  proof
    fix r
    assume r: "r \<in> set rows"
    show "(custom_alias r = Some c) = (short_url r = c)"
    proof
      assume "custom_alias r = Some c"
      with inv r show "short_url r = c" by blast
    next
      assume "short_url r = c"
      with r have "r \<in> set (filter (\<lambda>r. short_url r = c) rows)" by simp
      then have "r = row" unfolding 1 by simp
      with row show "custom_alias r = Some c" by simp
    qed
  qed
  have "filter (\<lambda>r. custom_alias r = Some c) rows = filter (\<lambda>r. short_url r = c) rows"
    by (rule filter_cong [OF refl]) (use e in blast)
  then show "filter (\<lambda>r. custom_alias r = Some c) rows = [row]" by (simp add: 1)
  have "filter (\<lambda>r. short_url r = c \<or> custom_alias r = Some c) rows
          = filter (\<lambda>r. short_url r = c) rows"
    by (rule filter_cong [OF refl]) (use e in blast)
  then show "take 1 (filter (\<lambda>r. short_url r = c \<or> custom_alias r = Some c) rows) = [row]"
    by (simp add: 1)
qed

text \<open>
  C9: a successful request with a non-empty \<^verbatim>\<open>customAlias\<close> appends one row whose
  \<^verbatim>\<open>short_url\<close> and \<^verbatim>\<open>custom_alias\<close> are both the given alias (an empty \<^verbatim>\<open>customAlias\<close> is
  handled as a missing one: the token is generated and \<^verbatim>\<open>custom_alias\<close> is NULL). If in
  every stored row with a \<^verbatim>\<open>custom_alias\<close> the \<^verbatim>\<open>short_url\<close> is that alias, and the
  \<^verbatim>\<open>short_url\<close> values are unique, then the same holds after every request, and for each
  row with a \<^verbatim>\<open>custom_alias\<close> the lookup by \<^verbatim>\<open>short_url\<close>, the lookup by \<^verbatim>\<open>custom_alias\<close> and
  the lookup of the redirect all give exactly that row.
\<close>

theorem create_customAlias_is_short_url:
  assumes "create d check_err insert_err generated origin longUrl customAlias topic_name = (res, d')"
  shows "(\<forall>a x. customAlias = Some a \<and> a \<noteq> [] \<and> res = Inr x \<longrightarrow>
            (\<exists>row. urls d' = urls d @ [row] \<and> short_url row = a \<and> custom_alias row = Some a
                   \<and> x = origin @ ''/'' @ a))
         \<and> ((\<forall>row \<in> set (urls d). \<forall>c. custom_alias row = Some c \<longrightarrow> short_url row = c)
              \<and> distinct (map short_url (urls d))
            \<longrightarrow> (\<forall>row \<in> set (urls d'). \<forall>c. custom_alias row = Some c \<longrightarrow> short_url row = c)
                \<and> distinct (map short_url (urls d'))
                \<and> (\<forall>row \<in> set (urls d'). \<forall>c. custom_alias row = Some c \<longrightarrow>
                      filter (\<lambda>r. short_url r = c) (urls d') = [row]
                      \<and> filter (\<lambda>r. custom_alias r = Some c) (urls d') = [row]
                      \<and> findUrlQuery d' c = [row]))"
proof (intro conjI allI impI)
  fix a x
  assume h: "customAlias = Some a \<and> a \<noteq> [] \<and> res = Inr x"
  with assms have c: "create d check_err insert_err generated origin longUrl customAlias topic_name
      = (Inr x, d')" by simp
  from create_Inr [OF c] h have "urls d' = urls d @
      [\<lparr>long_url = the longUrl, short_url = a, custom_alias = Some a,
        topic = (if truthy topic_name then topic_name else None)\<rparr>]"
    by (simp add: truthy_def)
  moreover from c h have "x = origin @ ''/'' @ a"
    by (simp add: create_def Let_def truthy_def split: if_splits)
  ultimately show "\<exists>row. urls d' = urls d @ [row] \<and> short_url row = a \<and> custom_alias row = Some a
                   \<and> x = origin @ ''/'' @ a"
    by simp
next
  assume pre: "(\<forall>row \<in> set (urls d). \<forall>c. custom_alias row = Some c \<longrightarrow> short_url row = c)
              \<and> distinct (map short_url (urls d))"
  have inv': "\<forall>row \<in> set (urls d'). \<forall>c. custom_alias row = Some c \<longrightarrow> short_url row = c"
  proof (cases res)
    case (Inl e)
    with assms create_not_Inr have "d' = d" by blast
    with pre show ?thesis by simp
  next
    case (Inr x)
    with assms have c: "create d check_err insert_err generated origin longUrl customAlias topic_name
      = (Inr x, d')" by simp
    from create_Inr [OF c] pre show ?thesis
      by (auto simp: truthy_def split: option.splits if_splits)
  qed
  have uniq': "distinct (map short_url (urls d'))"
  proof (cases res)
    case (Inl e)
    with assms create_not_Inr have "d' = d" by blast
    with pre show ?thesis by simp
  next
    case (Inr x)
    with assms have c: "create d check_err insert_err generated origin longUrl customAlias topic_name
      = (Inr x, d')" by simp
    from create_Inr [OF c] pre show ?thesis
      by (auto simp: violates_unique_def)
  qed
  show "\<forall>row \<in> set (urls d'). \<forall>c. custom_alias row = Some c \<longrightarrow> short_url row = c"
    by (rule inv')
  show "distinct (map short_url (urls d'))" by (rule uniq')
  show "\<forall>row \<in> set (urls d'). \<forall>c. custom_alias row = Some c \<longrightarrow>
                      filter (\<lambda>r. short_url r = c) (urls d') = [row]
                      \<and> filter (\<lambda>r. custom_alias r = Some c) (urls d') = [row]
                      \<and> findUrlQuery d' c = [row]"
    using resolve_same_row [OF inv' uniq'] by (simp add: findUrlQuery_def)
qed

lemma create_example:
  "create \<lparr>urls = [], url_analytics = []\<rparr> False False ''tok'' ''http://host''
     (Some ''http://x.com'') (Some ''abc'') (Some ''news'') = (Inr ''http://host/abc'', example_db)"
  by (simp add: create_def truthy_def checkAliasQuery_def violates_unique_def Let_def
      example_db_def)

theorem create_customAlias_is_short_url_witness:
  "create \<lparr>urls = [], url_analytics = []\<rparr> False False ''tok'' ''http://host''
     (Some ''http://x.com'') (Some ''abc'') (Some ''news'') = (Inr ''http://host/abc'', example_db)
   \<and> short_url (last (urls example_db)) = ''abc''
   \<and> custom_alias (last (urls example_db)) = Some ''abc''
   \<and> distinct (map short_url (urls example_db))
   \<and> filter (\<lambda>r. short_url r = ''abc'') (urls example_db) = [last (urls example_db)]
   \<and> filter (\<lambda>r. custom_alias r = Some ''abc'') (urls example_db) = [last (urls example_db)]
   \<and> findUrlQuery example_db ''abc'' = [last (urls example_db)]"
proof -
  note t = create_customAlias_is_short_url [OF create_example]
  from t obtain row where row: "urls example_db = [] @ [row]" "short_url row = ''abc''"
    "custom_alias row = Some ''abc''"
    by auto
  then have l: "last (urls example_db) = row" "row \<in> set (urls example_db)" by simp_all
  from t have d: "distinct (map short_url (urls example_db))" by simp
  from t have "\<forall>row \<in> set (urls example_db). \<forall>c. custom_alias row = Some c \<longrightarrow>
                      filter (\<lambda>r. short_url r = c) (urls example_db) = [row]
                      \<and> filter (\<lambda>r. custom_alias r = Some c) (urls example_db) = [row]
                      \<and> findUrlQuery example_db c = [row]"
    by simp
  with l(2) row(3) have "filter (\<lambda>r. short_url r = ''abc'') (urls example_db) = [row]
      \<and> filter (\<lambda>r. custom_alias r = Some ''abc'') (urls example_db) = [row]
      \<and> findUrlQuery example_db ''abc'' = [row]"
    by blast
  with create_example row l d show ?thesis by simp
qed

section \<open>The report of a topic\<close>

lemma topic_inv_start:
  "topic_inv [] \<lparr>st_totalClicks = 0, st_uniqueUsersSet = [], st_clicksByDate = [],
                 st_urlsAnalytics = []\<rparr>"
  by (simp add: topic_inv_def new_Set_def)

lemma topic_step_TypeError:
  assumes "topic_inv ps st" and "t_alias r \<in> set object_prototype_keys"
    and "t_alias r \<notin> t_alias ` set ps"
  shows "topic_step st r = Inl TypeError"
proof -
  from assms(1,3) have "map_of (st_urlsAnalytics st) (t_alias r) = None"
    by (simp add: topic_inv_def)
  with assms(2) show ?thesis by (simp add: topic_step_def Let_def)
qed

lemma topic_step_Inl: "topic_step st r = Inl e \<Longrightarrow> e = TypeError \<and> t_alias r \<in> set object_prototype_keys"
  by (simp add: topic_step_def Let_def split: if_splits)

lemma topic_step_inv:
  assumes "topic_inv ps st" and "t_alias r \<notin> set object_prototype_keys"
  shows "\<exists>st'. topic_step st r = Inr st' \<and> topic_inv (ps @ [r]) st'"
proof -
  define k0 where "k0 = t_alias r"
  define m where "m = st_urlsAnalytics st"
  define u where "u = (case map_of m k0 of Some u \<Rightarrow> u
      | None \<Rightarrow> \<lparr>data_totalClicks = 0, data_users = []\<rparr>)"
  define u' where "u' = u\<lparr>data_totalClicks := data_totalClicks u + total_clicks r,
        data_users := set_add (data_users u) (ip_address r)\<rparr>"
  define clickDate where "clickDate = format_date (click_date r)"
  define st' where "st' = \<lparr>st_totalClicks = st_totalClicks st + total_clicks r,
      st_uniqueUsersSet = set_add (st_uniqueUsersSet st) (ip_address r),
      st_clicksByDate = AList.update clickDate
         ((case map_of (st_clicksByDate st) clickDate of None \<Rightarrow> 0 | Some c \<Rightarrow> c)
            + total_clicks r) (st_clicksByDate st),
      st_urlsAnalytics = AList.update k0 u' m\<rparr>"
  have s: "topic_step st r = Inr st'"
    using assms(2) unfolding st'_def u'_def u_def m_def k0_def clickDate_def
    by (simp add: topic_step_def Let_def)
  have u: "u = \<lparr>data_totalClicks = sum_list (map total_clicks (filter (\<lambda>r. t_alias r = k0) ps)),
                 data_users = new_Set (map ip_address (filter (\<lambda>r. t_alias r = k0) ps))\<rparr>"
    using assms(1) by (auto simp: u_def m_def topic_inv_def filter_empty_notin new_Set_def)
  have "map_of (AList.update k0 u' m) k =
         (if k \<in> t_alias ` set (ps @ [r])
          then Some \<lparr>data_totalClicks = sum_list (map total_clicks (filter (\<lambda>r. t_alias r = k) (ps @ [r]))),
                 data_users = new_Set (map ip_address (filter (\<lambda>r. t_alias r = k) (ps @ [r])))\<rparr>
          else None)" for k
  proof (cases "k = k0")
    case True
    then show ?thesis
      by (simp add: update_conv' k0_def [symmetric] u'_def u new_Set_snoc)
  next
    case False
    then show ?thesis
      using assms(1) by (simp add: update_conv' k0_def [symmetric] m_def topic_inv_def)
  qed
  moreover have "distinct (map fst (AList.update k0 u' m))"
    using assms(1) by (simp add: m_def topic_inv_def distinct_update)
  moreover have "st_totalClicks st' = sum_list (map total_clicks (ps @ [r]))"
    using assms(1) by (simp add: st'_def topic_inv_def)
  moreover have "st_uniqueUsersSet st' = new_Set (map ip_address (ps @ [r]))"
    using assms(1) by (simp add: st'_def topic_inv_def new_Set_snoc)
  ultimately have "topic_inv (ps @ [r]) st'"
    by (simp add: topic_inv_def st'_def)
  with s show ?thesis by blast
qed

lemma topic_forEach_inv:
  assumes "topic_inv ps st" and "\<forall>r \<in> set rs. t_alias r \<notin> set object_prototype_keys"
  shows "\<exists>st'. topic_forEach rs st = Inr st' \<and> topic_inv (ps @ rs) st'"
  using assms
proof (induction rs arbitrary: ps st)
  case Nil
  then show ?case by simp
next
  case (Cons r rs)
  from Cons.prems have "t_alias r \<notin> set object_prototype_keys" by simp
  from topic_step_inv [OF Cons.prems(1) this] obtain st1 where
    s: "topic_step st r = Inr st1" and i: "topic_inv (ps @ [r]) st1" by blast
  from Cons.prems(2) have "\<forall>r \<in> set rs. t_alias r \<notin> set object_prototype_keys" by simp
  from Cons.IH [OF i this] s show ?case by simp
qed

lemma topic_forEach_TypeError:
  assumes "topic_inv ps st" and "\<exists>r \<in> set rs. t_alias r \<in> set object_prototype_keys"
    and "\<forall>p \<in> set ps. t_alias p \<notin> set object_prototype_keys"
  shows "topic_forEach rs st = Inl TypeError"
  using assms
proof (induction rs arbitrary: ps st)
  case Nil
  then show ?case by simp
next
  case (Cons r rs)
  show ?case
  proof (cases "t_alias r \<in> set object_prototype_keys")
    case True
    with Cons.prems(3) have "t_alias r \<notin> t_alias ` set ps" by auto
    from topic_step_TypeError [OF Cons.prems(1) True this] show ?thesis by simp
  next
    case False
    from topic_step_inv [OF Cons.prems(1) False] obtain st1 where
      s: "topic_step st r = Inr st1" and i: "topic_inv (ps @ [r]) st1" by blast
    from Cons.prems(2) False have e: "\<exists>r \<in> set rs. t_alias r \<in> set object_prototype_keys" by auto
    from Cons.prems(3) False have "\<forall>p \<in> set (ps @ [r]). t_alias p \<notin> set object_prototype_keys"
      by auto
    from Cons.IH [OF i e this] s show ?thesis by simp
  qed
qed

lemma find_short_url:
  "a \<in> short_url ` set rows \<Longrightarrow>
     \<exists>urlInfo. find (\<lambda>url. short_url url = a) rows = Some urlInfo \<and> short_url urlInfo = a"
  by (induction rows) auto

lemma urlsAnalyticsArray_Inr:
  assumes "\<forall>kv \<in> set es. fst kv \<in> short_url ` set urlsResults"
  shows "urlsAnalyticsArray urlsResults es =
           Inr (map (\<lambda>(a, u). \<lparr>shortUrl = a, url_totalClicks = data_totalClicks u,
                                 url_uniqueUsers = length (data_users u)\<rparr>) es)"
  using assms
proof (induction es)
  case Nil
  then show ?case by simp
next
  case (Cons kv es)
  obtain a u where kv: "kv = (a, u)" by (cases kv)
  from Cons.prems kv have "a \<in> short_url ` set urlsResults" by simp
  from find_short_url [OF this] obtain urlInfo where
    f: "find (\<lambda>url. short_url url = a) urlsResults = Some urlInfo" "short_url urlInfo = a"
    by blast
  from Cons have "urlsAnalyticsArray urlsResults es =
           Inr (map (\<lambda>(a, u). \<lparr>shortUrl = a, url_totalClicks = data_totalClicks u,
                                 url_uniqueUsers = length (data_users u)\<rparr>) es)"
    by simp
  with f show ?case by (simp add: kv)
qed

lemma topic_inv_set:
  assumes "topic_inv ps st"
  shows "set (st_urlsAnalytics st) =
          (\<lambda>k. (k, \<lparr>data_totalClicks = sum_list (map total_clicks (filter (\<lambda>r. t_alias r = k) ps)),
                     data_users = new_Set (map ip_address (filter (\<lambda>r. t_alias r = k) ps))\<rparr>))
           ` t_alias ` set ps" (is "_ = ?g ` ?K")
proof (rule set_eqI)
  fix kb :: "string \<times> url_data"
  obtain k b where kb: "kb = (k, b)" by (cases kb)
  from assms have d: "distinct (map fst (st_urlsAnalytics st))" by (simp add: topic_inv_def)
  have "kb \<in> set (st_urlsAnalytics st) \<longleftrightarrow> map_of (st_urlsAnalytics st) k = Some b"
    using d by (simp add: kb)
  also have "\<dots> \<longleftrightarrow> k \<in> ?K \<and> b = snd (?g k)"
    using assms by (auto simp: topic_inv_def)
  also have "\<dots> \<longleftrightarrow> kb \<in> ?g ` ?K"
    unfolding kb by (auto simp del: image_image)
  finally show "kb \<in> set (st_urlsAnalytics st) \<longleftrightarrow> kb \<in> ?g ` ?K" .
qed

text \<open>
  The report of a topic when every row's alias is the \<^verbatim>\<open>short_url\<close> of one of the topic's
  URLs and no alias is the name of a property that objects inherit: one \<^verbatim>\<open>urls\<close> entry
  per alias that has a row, with the clicks and the distinct addresses of its rows.
\<close>

lemma topic_rollup_urls:
  assumes "\<forall>t \<in> set tuples. t_alias t \<in> short_url ` set urlsResults"
    and "\<forall>t \<in> set tuples. t_alias t \<notin> set object_prototype_keys"
  shows "\<exists>rep. topic_rollup urlsResults tuples = Inr rep
           \<and> totalClicks rep = sum_list (map total_clicks tuples)
           \<and> uniqueUsers rep = card (ip_address ` set tuples)
           \<and> distinct (map shortUrl (report_urls rep))
           \<and> set (report_urls rep) =
               (\<lambda>k. \<lparr>shortUrl = k,
                      url_totalClicks = sum_list (map total_clicks (filter (\<lambda>r. t_alias r = k) tuples)),
                      url_uniqueUsers = card (ip_address ` {r \<in> set tuples. t_alias r = k})\<rparr>)
               ` t_alias ` set tuples"
proof -
  let ?st0 = "\<lparr>st_totalClicks = 0, st_uniqueUsersSet = [], st_clicksByDate = [],
              st_urlsAnalytics = []\<rparr>"
  let ?out = "\<lambda>(a, u). \<lparr>shortUrl = a, url_totalClicks = data_totalClicks u,
                          url_uniqueUsers = length (data_users u)\<rparr>"
  from topic_forEach_inv [OF topic_inv_start assms(2)] obtain st where
    f: "topic_forEach tuples ?st0 = Inr st" and i: "topic_inv tuples st" by auto
  note s = topic_inv_set [OF i]
  have keys: "\<forall>kv \<in> set (own_entries (st_urlsAnalytics st)). fst kv \<in> short_url ` set urlsResults"
    using assms(1) unfolding set_own_entries s by auto
  define rep where "rep = \<lparr>totalClicks = st_totalClicks st,
                    uniqueUsers = length (st_uniqueUsersSet st),
                    clicksByDate =
                      map (\<lambda>(d, count). \<lparr>date_key = d, clickCount = count\<rparr>)
                        (own_entries (st_clicksByDate st)),
                    report_urls = map ?out (own_entries (st_urlsAnalytics st))\<rparr>"
  have r: "topic_rollup urlsResults tuples = Inr rep"
    by (simp add: topic_rollup_def f urlsAnalyticsArray_Inr [OF keys] rep_def)
  have 1: "totalClicks rep = sum_list (map total_clicks tuples)"
    using i by (simp add: rep_def topic_inv_def)
  have 2: "uniqueUsers rep = card (ip_address ` set tuples)"
    using i by (simp add: rep_def topic_inv_def length_new_Set)
  have "map shortUrl (report_urls rep) = map fst (own_entries (st_urlsAnalytics st))"
    by (simp add: rep_def case_prod_beta)
  then have 3: "distinct (map shortUrl (report_urls rep))"
    using i by (simp add: distinct_keys_own_entries topic_inv_def)
  have c: "length (new_Set (map ip_address (filter (\<lambda>r. t_alias r = k) tuples)))
            = card (ip_address ` {r \<in> set tuples. t_alias r = k})" for k
    by (simp add: length_new_Set)
  have 4: "set (report_urls rep) =
               (\<lambda>k. \<lparr>shortUrl = k,
                      url_totalClicks = sum_list (map total_clicks (filter (\<lambda>r. t_alias r = k) tuples)),
                      url_uniqueUsers = card (ip_address ` {r \<in> set tuples. t_alias r = k})\<rparr>)
               ` t_alias ` set tuples"
    by (simp add: rep_def set_own_entries s image_image c)
  from r 1 2 3 4 show ?thesis by blast
qed

lemma topic_rollup_TypeError:
  assumes "\<exists>t \<in> set tuples. t_alias t \<in> set object_prototype_keys"
  shows "topic_rollup urlsResults tuples = Inl TypeError"
proof -
  have "topic_forEach tuples \<lparr>st_totalClicks = 0, st_uniqueUsersSet = [], st_clicksByDate = [],
              st_urlsAnalytics = []\<rparr> = Inl TypeError"
    by (rule topic_forEach_TypeError [OF topic_inv_start assms]) simp
  then show ?thesis by (simp add: topic_rollup_def)
qed

lemma topic_rollup_Nil:
  "topic_rollup urlsResults [] =
     Inr \<lparr>totalClicks = 0, uniqueUsers = 0, clicksByDate = [], report_urls = []\<rparr>"
  by (simp add: topic_rollup_def own_entries_def)

lemma getTopicReport_NotFound:
  "\<not> urls_err \<Longrightarrow> \<forall>row \<in> set (urls d). topic row \<noteq> Some t \<Longrightarrow>
     getTopicReport d urls_err queryGroupedEvents t = Inl NotFound"
  by (simp add: getTopicReport_def topicUrlsQuery_def filter_empty_conv)

lemma getTopicReport_no_events:
  "\<not> urls_err \<Longrightarrow> \<exists>row \<in> set (urls d). topic row = Some t \<Longrightarrow>
     queryGroupedEvents (map short_url (topicUrlsQuery d t)) = Some [] \<Longrightarrow>
     getTopicReport d urls_err queryGroupedEvents t =
       Inr \<lparr>totalClicks = 0, uniqueUsers = 0, clicksByDate = [], report_urls = []\<rparr>"
  by (auto simp: getTopicReport_def topicUrlsQuery_def filter_empty_conv topic_rollup_Nil Let_def)

lemma getTopicReport_inherited_key:
  assumes "\<not> urls_err" and "\<exists>row \<in> set (urls d). topic row = Some t"
    and "queryGroupedEvents (map short_url (topicUrlsQuery d t)) = Some tuples"
    and "\<exists>r \<in> set tuples. t_alias r \<in> set object_prototype_keys"
  shows "getTopicReport d urls_err queryGroupedEvents t = Inl TypeError"
proof -
  from assms(2) have "topicUrlsQuery d t \<noteq> []"
    by (auto simp: topicUrlsQuery_def filter_empty_conv)
  with assms(1,3) show ?thesis
    by (simp add: getTopicReport_def Let_def topic_rollup_TypeError [OF assms(4)])
qed

text \<open>
  C6, at a topic whose URL has the custom alias \<^verbatim>\<open>constructor\<close>: the URL is created by
  \<^verbatim>\<open>POST /shorten\<close>, and with one row of events for it the report of the topic is not a
  report with one \<^verbatim>\<open>urls\<close> entry but a \<open>TypeError\<close>; with the alias \<^verbatim>\<open>abc\<close> in its place the
  report has the entry.
\<close>

theorem getTopicReport_throws_on_inherited_alias:
  "create \<lparr>urls = [], url_analytics = []\<rparr> False False ''tok'' ''http://host''
     (Some ''http://x.com'') (Some ''constructor'') (Some ''news'')
     = (Inr ''http://host/constructor'', constructor_db)
   \<and> getTopicReport constructor_db False (\<lambda>aliases. Some [constructor_tuple]) ''news''
       = Inl TypeError
   \<and> getTopicReport example_db False
        (\<lambda>aliases. Some [constructor_tuple\<lparr>t_alias := ''abc''\<rparr>]) ''news''
       = Inr \<lparr>totalClicks = 1, uniqueUsers = 1,
              clicksByDate = [\<lparr>date_key = ''2024-01-01'', clickCount = 1\<rparr>],
              report_urls = [\<lparr>shortUrl = ''abc'', url_totalClicks = 1, url_uniqueUsers = 1\<rparr>]\<rparr>"
proof -
  have 1: "create \<lparr>urls = [], url_analytics = []\<rparr> False False ''tok'' ''http://host''
     (Some ''http://x.com'') (Some ''constructor'') (Some ''news'')
     = (Inr ''http://host/constructor'', constructor_db)"
    by (simp add: create_def truthy_def checkAliasQuery_def violates_unique_def Let_def
        constructor_db_def)
  have 2: "getTopicReport constructor_db False (\<lambda>aliases. Some [constructor_tuple]) ''news''
       = Inl TypeError"
    by (simp add: getTopicReport_def topicUrlsQuery_def constructor_db_def constructor_tuple_def
        topic_rollup_def topic_step_def object_prototype_keys_def Let_def)
  have 3: "getTopicReport example_db False
        (\<lambda>aliases. Some [constructor_tuple\<lparr>t_alias := ''abc''\<rparr>]) ''news''
       = Inr \<lparr>totalClicks = 1, uniqueUsers = 1,
              clicksByDate = [\<lparr>date_key = ''2024-01-01'', clickCount = 1\<rparr>],
              report_urls = [\<lparr>shortUrl = ''abc'', url_totalClicks = 1, url_uniqueUsers = 1\<rparr>]\<rparr>"
    by (simp add: getTopicReport_def topicUrlsQuery_def example_db_def constructor_tuple_def
        topic_rollup_def topic_step_def object_prototype_keys_def Let_def set_add_def
        format_date_def zeroFill_def dec.simps char_of_eq_iff own_entries_def
        is_array_index_def is_digit_def index_value_def)
  from 1 2 3 show ?thesis by simp
qed

end
